theory Spec2Isabelle
  imports Complex_Main
begin

section \<open>The store: table \<open>fact_checks\<close>\<close>

text \<open>
  The repository keeps one table, \<open>fact_checks\<close> (\<^verbatim>\<open>init_db.py\<close>, extended by the column
  \<open>tweet_format\<close> in \<^verbatim>\<open>update_schema.py\<close>).  A row of the table is a record whose nullable
  columns are options.  Vectors are lists of reals: the embedding model and the distance
  operator of the vector extension are outside the repository and enter every definition as
  parameters (\<open>encode\<close>, \<open>cdist\<close>).  The column \<open>id\<close> is a serial key: the table carries
  the next value of its sequence.
\<close>

type_synonym vec = "real list"

record row =
  row_id :: nat
  tweet_id :: int
  tweet_url :: "string option"
  tweet_text :: "string option"
  tweet_vector :: "vec option"
  note_text :: string
  note_vector :: "vec option"
  created_at :: nat
  tweet_format :: "string option"

record database =
  fact_checks :: "row list"
  id_seq :: nat

definition empty_db :: database where
  "empty_db = \<lparr>fact_checks = [], id_seq = 1\<rparr>"

section \<open>Enrichment (\<^verbatim>\<open>enrich_pairs.py\<close>)\<close>

definition BATCH_SIZE :: nat where
  "BATCH_SIZE = 100"

subsection \<open>The content API\<close>

text \<open>
  What \<^verbatim>\<open>requests.get\<close> followed by \<^verbatim>\<open>raise_for_status\<close> and \<^verbatim>\<open>response.json()\<close> can give:
  status 404, any exception (network failure, another error status, a body that is not the
  expected JSON object), or the decoded object.  Of the object the code reads the key
  \<open>text\<close> (absent: \<open>None\<close>), whether the key \<open>video\<close> is present, and the length of the list
  under \<open>photos\<close> when that key is present.
\<close>

record tweet_json =
  json_text :: "string option"
  json_video :: bool
  json_photos :: "nat option"

datatype response = NotFound | RequestError | Success tweet_json

text \<open>The API is asked with the identifier taken from the URL.\<close>

type_synonym api = "string \<Rightarrow> response"

subsection \<open>\<open>fetch_tweet_details\<close>\<close>

text \<open>\<^verbatim>\<open>str.split(sep)\<close>: the pieces between the separators, never the empty list.\<close>

fun py_split :: "char \<Rightarrow> string \<Rightarrow> string list" where
  "py_split c [] = [[]]"
| "py_split c (x # xs) =
     (if x = c then [] # py_split c xs
      else (case py_split c xs of
              [] \<Rightarrow> [[x]]
            | p # ps \<Rightarrow> (x # p) # ps))"

text \<open>\<^verbatim>\<open>str.isdigit()\<close> on ASCII text: non-empty and every character a decimal digit.\<close>

definition is_digit_char :: "char \<Rightarrow> bool" where
  "is_digit_char c = (c \<in> set ''0123456789'')"

definition isdigit :: "string \<Rightarrow> bool" where
  "isdigit s = (s \<noteq> [] \<and> list_all is_digit_char s)"

text \<open>
  The first \<^verbatim>\<open>try\<close> block: \<^verbatim>\<open>tweet_url.split("/")[-1].split("?")[0]\<close>.  A NULL URL
  makes \<^verbatim>\<open>split\<close> raise, the bare \<^verbatim>\<open>except\<close> returns \<open>None\<close>; so does an identifier
  that is not all digits.
\<close>

definition extract_tweet_id :: "string option \<Rightarrow> string option" where
  "extract_tweet_id tweet_url_opt =
     (case tweet_url_opt of
        None \<Rightarrow> None
      | Some url \<Rightarrow>
          (let tid = hd (py_split (CHR ''?'') (last (py_split (CHR ''/'') url)))
           in if isdigit tid then Some tid else None))"

definition detect_format :: "tweet_json \<Rightarrow> string" where
  "detect_format data =
     (if json_video data then ''Video''
      else if (case json_photos data of None \<Rightarrow> False | Some n \<Rightarrow> n > 0) then ''Photo''
      else ''Text'')"

definition fetch_tweet_details :: "api \<Rightarrow> string option \<Rightarrow> (string \<times> string) option" where
  "fetch_tweet_details fetch tweet_url_opt =
     (case extract_tweet_id tweet_url_opt of
        None \<Rightarrow> None
      | Some tid \<Rightarrow>
          (case fetch tid of
             NotFound \<Rightarrow> Some (''MISSING'', ''Unknown'')
           | RequestError \<Rightarrow> None
           | Success data \<Rightarrow>
               Some ((case json_text data of None \<Rightarrow> [] | Some t \<Rightarrow> t), detect_format data)))"

subsection \<open>\<open>get_null_rows\<close> and \<open>update_row\<close>\<close>

text \<open>
  The \<open>WHERE\<close> clause of \<open>get_null_rows\<close>:
  \<^verbatim>\<open>tweet_text IS NULL AND (tweet_format IS NULL OR tweet_format != 'Missing')\<close>.
\<close>

definition needs_enrichment :: "row \<Rightarrow> bool" where
  "needs_enrichment r =
     (tweet_text r = None \<and> (tweet_format r = None \<or> tweet_format r \<noteq> Some ''Missing''))"

text \<open>
  The query has no \<open>ORDER BY\<close>; the model returns the rows in the order of the table.
\<close>

definition get_null_rows :: "database \<Rightarrow> nat \<Rightarrow> (nat \<times> string option) list" where
  "get_null_rows db limit =
     take limit (map (\<lambda>r. (row_id r, tweet_url r)) (filter needs_enrichment (fact_checks db)))"

text \<open>\<^verbatim>\<open>UPDATE fact_checks SET ... WHERE id = row_id\<close>, on every row with that id.\<close>

definition update_where_id :: "nat \<Rightarrow> (row \<Rightarrow> row) \<Rightarrow> database \<Rightarrow> database" where
  "update_where_id i f db =
     db\<lparr>fact_checks := map (\<lambda>r. if row_id r = i then f r else r) (fact_checks db)\<rparr>"

definition update_row ::
  "database \<Rightarrow> nat \<Rightarrow> string \<Rightarrow> vec option \<Rightarrow> string \<Rightarrow> database" where
  "update_row db i text vector_opt fmt =
     (case vector_opt of
        None \<Rightarrow>
          update_where_id i
            (\<lambda>r. r\<lparr>tweet_text := Some ''MISSING_OR_DELETED'', tweet_format := Some ''Missing''\<rparr>) db
      | Some v \<Rightarrow>
          update_where_id i
            (\<lambda>r. r\<lparr>tweet_text := Some text, tweet_vector := Some v, tweet_format := Some fmt\<rparr>) db)"

subsection \<open>The loop of \<open>main\<close>\<close>

text \<open>The body of the \<^verbatim>\<open>for\<close> loop, for one selected row.\<close>

definition process_row ::
  "api \<Rightarrow> (string \<Rightarrow> vec) \<Rightarrow> database \<Rightarrow> nat \<times> string option \<Rightarrow> database" where
  "process_row fetch encode db sel =
     (case fetch_tweet_details fetch (snd sel) of
        None \<Rightarrow> db
      | Some (text, fmt) \<Rightarrow>
          if text = ''MISSING'' then update_row db (fst sel) ''MISSING'' None ''Missing''
          else update_row db (fst sel) text (Some (encode text)) fmt)"

fun process_rows ::
  "api \<Rightarrow> (string \<Rightarrow> vec) \<Rightarrow> database \<Rightarrow> (nat \<times> string option) list \<Rightarrow> database" where
  "process_rows fetch encode db [] = db"
| "process_rows fetch encode db (sel # sels) =
     process_rows fetch encode (process_row fetch encode db sel) sels"

text \<open>One pass of the \<^verbatim>\<open>while\<close> loop: select a batch, work through it.\<close>

definition enrich_pass :: "api \<Rightarrow> (string \<Rightarrow> vec) \<Rightarrow> database \<Rightarrow> database" where
  "enrich_pass fetch encode db = process_rows fetch encode db (get_null_rows db BATCH_SIZE)"

text \<open>
  The \<^verbatim>\<open>while True\<close> loop.  It may run forever (a row whose fetch keeps failing is selected
  again in every pass), so not returning is the value \<open>None\<close>.  The API may answer
  differently from pass to pass: \<open>fetch n\<close> is the API during pass \<open>n\<close>.
\<close>

partial_function (option) enrich_loop ::
  "(nat \<Rightarrow> api) \<Rightarrow> (string \<Rightarrow> vec) \<Rightarrow> nat \<Rightarrow> database \<Rightarrow> database option" where
  "enrich_loop fetch encode n db =
     (if get_null_rows db BATCH_SIZE = [] then Some db
      else enrich_loop fetch encode (Suc n) (enrich_pass (fetch n) encode db))"


section \<open>Ingestion (\<^verbatim>\<open>ingest_notes.py\<close>)\<close>

subsection \<open>The two input tables\<close>

text \<open>
  Of the notes table the code reads the columns \<open>noteId\<close>, \<open>tweetId\<close> and \<open>summary\<close> (which
  may be missing in a row); of the status history, \<open>noteId\<close> and \<open>currentStatus\<close>.
\<close>

record note_row =
  noteId :: int
  tweetId :: int
  summary :: "string option"

record status_row =
  status_noteId :: int
  currentStatus :: string

subsection \<open>\<open>load_and_filter_notes\<close>\<close>

definition helpful_status :: "status_row list \<Rightarrow> status_row list" where
  "helpful_status status_df =
     filter (\<lambda>s. currentStatus s = ''CURRENTLY_RATED_HELPFUL'') status_df"

text \<open>
  \<^verbatim>\<open>notes_df.merge(helpful_status[["noteId"]], on="noteId", how="inner")\<close>: one output row
  for every pair of a note and a matching status row, in the order of the notes.
\<close>

definition merge_inner :: "note_row list \<Rightarrow> int list \<Rightarrow> note_row list" where
  "merge_inner notes_df ids =
     concat (map (\<lambda>n. map (\<lambda>_. n) (filter (\<lambda>i. i = noteId n) ids)) notes_df)"

definition load_and_filter_notes :: "note_row list \<Rightarrow> status_row list \<Rightarrow> note_row list" where
  "load_and_filter_notes notes_df status_df =
     merge_inner notes_df (map status_noteId (helpful_status status_df))"

subsection \<open>\<open>drop_duplicates(subset=['tweetId'], keep='first')\<close>\<close>

fun drop_seen :: "int list \<Rightarrow> note_row list \<Rightarrow> note_row list" where
  "drop_seen seen [] = []"
| "drop_seen seen (n # ns) =
     (if tweetId n \<in> set seen then drop_seen seen ns
      else n # drop_seen (tweetId n # seen) ns)"

definition drop_duplicates :: "note_row list \<Rightarrow> note_row list" where
  "drop_duplicates df = drop_seen [] df"

text \<open>Filter and dedup as \<open>main\<close> chains them.\<close>

definition filter_dedup :: "note_row list \<Rightarrow> status_row list \<Rightarrow> note_row list" where
  "filter_dedup notes_df status_df = drop_duplicates (load_and_filter_notes notes_df status_df)"

subsection \<open>\<open>insert_batch\<close>\<close>

type_synonym batch_item = "int \<times> string \<times> string \<times> vec"

text \<open>
  What can go wrong with an \<open>INSERT\<close> statement, by the schema of \<^verbatim>\<open>init_db.py\<close>: the driver
  refuses a string with a NUL character (\<open>ValueError\<close>); \<open>tweet_id\<close> is a \<open>BIGINT\<close>;
  \<open>note_vector\<close> is a \<open>vector(384)\<close>; \<open>id\<close> is a \<open>SERIAL\<close>, whose sequence ends at
  2147483647; and a statement must not propose a \<open>tweet_id\<close> twice.
\<close>

datatype db_error =
  ValueError
| NumericValueOutOfRange
| DataException
| SequenceGeneratorLimitExceeded
| CardinalityViolation

definition in_bigint :: "int \<Rightarrow> bool" where
  "in_bigint i = (- 9223372036854775808 \<le> i \<and> i \<le> 9223372036854775807)"

definition VECTOR_DIM :: nat where
  "VECTOR_DIM = 384"

definition MAX_SERIAL :: int where
  "MAX_SERIAL = 2147483647"

definition no_nul :: "string \<Rightarrow> bool" where
  "no_nul s = (CHR 0x00 \<notin> set s)"

text \<open>
  One proposed row of \<^verbatim>\<open>INSERT ... ON CONFLICT (tweet_id) DO UPDATE\<close>.  A proposed row
  takes a value of the \<open>id\<close> sequence whether it is inserted or not.  An inserted row has the
  columns the statement does not name at their defaults: the texts and vectors of the tweet
  and its format NULL, \<open>created_at\<close> the time of the transaction.
\<close>

definition upsert :: "nat \<Rightarrow> database \<Rightarrow> batch_item \<Rightarrow> database" where
  "upsert now db item =
     (case item of (tid, url, note_txt, note_vec) \<Rightarrow>
        if list_ex (\<lambda>r. tweet_id r = tid) (fact_checks db)
        then \<lparr>fact_checks =
                map (\<lambda>r. if tweet_id r = tid
                          then r\<lparr>tweet_url := Some url, note_text := note_txt,
                                 note_vector := Some note_vec\<rparr>
                          else r) (fact_checks db),
              id_seq = Suc (id_seq db)\<rparr>
        else \<lparr>fact_checks = fact_checks db @
                [\<lparr>row_id = id_seq db, tweet_id = tid, tweet_url = Some url,
                  tweet_text = None, tweet_vector = None, note_text = note_txt,
                  note_vector = Some note_vec, created_at = now, tweet_format = None\<rparr>],
              id_seq = Suc (id_seq db)\<rparr>)"

text \<open>
  One \<open>INSERT\<close> statement.  It fails as a whole, writing nothing, when a text holds a NUL
  character, when a \<open>tweet_id\<close> is outside \<open>BIGINT\<close>, when a note vector has not 384
  entries, when the \<open>id\<close> sequence has not a value left for each proposed row, or when the
  same \<open>tweet_id\<close> is proposed twice (\<open>ON CONFLICT DO UPDATE\<close> cannot affect a row a second
  time: this is the batch collision that deduplication prevents).  Where several of these
  apply the model reports the first in this order.
\<close>

definition insert_statement :: "nat \<Rightarrow> database \<Rightarrow> batch_item list \<Rightarrow> db_error + database" where
  "insert_statement now db items =
     (if \<not> list_all (\<lambda>item. no_nul (fst (snd item)) \<and> no_nul (fst (snd (snd item)))) items
      then Inl ValueError
      else if \<not> list_all (\<lambda>item. in_bigint (fst item)) items
      then Inl NumericValueOutOfRange
      else if \<not> list_all (\<lambda>item. length (snd (snd (snd item))) = VECTOR_DIM) items
      then Inl DataException
      else if int (id_seq db) + int (length items) > MAX_SERIAL + 1
      then Inl SequenceGeneratorLimitExceeded
      else if distinct (map fst items) then Inr (foldl (upsert now) db items)
      else Inl CardinalityViolation)"

text \<open>Slices of at most \<open>n\<close> elements, as \<^verbatim>\<open>range(0, len, n)\<close> with \<^verbatim>\<open>xs[i:i+n]\<close> gives them.\<close>

function chunks_of :: "nat \<Rightarrow> 'a list \<Rightarrow> 'a list list" where
  "chunks_of n xs = (if n = 0 \<or> xs = [] then [] else take n xs # chunks_of n (drop n xs))"
  by pat_completeness auto
termination
  by (relation "measure (\<lambda>(n, xs). length xs)") auto

declare chunks_of.simps [simp del]

text \<open>
  \<open>execute_values\<close> sends the batch in pages of 100 rows (its default page size), one
  statement a page, inside the transaction of the batch.
\<close>

definition PAGE_SIZE :: nat where
  "PAGE_SIZE = 100"

fun insert_pages :: "nat \<Rightarrow> database \<Rightarrow> batch_item list list \<Rightarrow> db_error + database" where
  "insert_pages now db [] = Inr db"
| "insert_pages now db (p # ps) =
     (case insert_statement now db p of
        Inl e \<Rightarrow> Inl e
      | Inr db' \<Rightarrow> insert_pages now db' ps)"

definition insert_batch :: "nat \<Rightarrow> database \<Rightarrow> batch_item list \<Rightarrow> db_error + database" where
  "insert_batch now db batch_data = insert_pages now db (chunks_of PAGE_SIZE batch_data)"

subsection \<open>The loop of \<open>main\<close>\<close>

definition LOAD_BATCH_SIZE :: nat where
  "LOAD_BATCH_SIZE = 1000"

text \<open>\<^verbatim>\<open>str\<close> of an integer, for the f-string that builds the URL.\<close>

function str_nat :: "nat \<Rightarrow> string" where
  "str_nat n =
     (if n < 10 then [''0123456789'' ! n]
      else str_nat (n div 10) @ [''0123456789'' ! (n mod 10)])"
  by pat_completeness auto
termination
  by (relation "measure id") auto

declare str_nat.simps [simp del]

definition str_int :: "int \<Rightarrow> string" where
  "str_int i = (if i < 0 then CHR ''-'' # str_nat (nat (- i)) else str_nat (nat i))"

definition make_tweet_url :: "int \<Rightarrow> string" where
  "make_tweet_url tid = ''https://twitter.com/i/web/status/'' @ str_int tid"

definition fillna :: "string option \<Rightarrow> string" where
  "fillna s = (case s of None \<Rightarrow> [] | Some t \<Rightarrow> t)"

text \<open>The tuples of one batch: id, URL, note text, embedding of the note text.\<close>

definition batch_data_of :: "(string \<Rightarrow> vec) \<Rightarrow> note_row list \<Rightarrow> batch_item list" where
  "batch_data_of encode batch_df =
     map (\<lambda>n. (tweetId n, make_tweet_url (tweetId n), fillna (summary n),
                encode (fillna (summary n)))) batch_df"

text \<open>
  The \<^verbatim>\<open>for batch_start\<close> loop: one transaction a batch, committed before the next; an
  error of the store ends the run with the batches committed so far.  \<open>clock k\<close> is the time
  of the transaction of batch \<open>k\<close>.
\<close>

fun load_batches ::
  "(nat \<Rightarrow> nat) \<Rightarrow> (string \<Rightarrow> vec) \<Rightarrow> nat \<Rightarrow> database \<Rightarrow> note_row list list \<Rightarrow> db_error + database" where
  "load_batches clock encode k db [] = Inr db"
| "load_batches clock encode k db (b # bs) =
     (case insert_batch (clock k) db (batch_data_of encode b) of
        Inl e \<Rightarrow> Inl e
      | Inr db' \<Rightarrow> load_batches clock encode (Suc k) db' bs)"

text \<open>The Batch Loader: \<open>main\<close> from the deduplicated notes on.\<close>

definition batch_loader ::
  "(nat \<Rightarrow> nat) \<Rightarrow> (string \<Rightarrow> vec) \<Rightarrow> database \<Rightarrow> note_row list \<Rightarrow> db_error + database" where
  "batch_loader clock encode db deduped =
     load_batches clock encode 0 db (chunks_of LOAD_BATCH_SIZE deduped)"

text \<open>\<open>main\<close> from the two loaded tables on; with no helpful note it leaves the store alone.\<close>

definition ingest_main ::
  "(nat \<Rightarrow> nat) \<Rightarrow> (string \<Rightarrow> vec) \<Rightarrow> database \<Rightarrow> note_row list \<Rightarrow> status_row list
     \<Rightarrow> db_error + database" where
  "ingest_main clock encode db notes_df status_df =
     (let helpful_notes = load_and_filter_notes notes_df status_df
      in if helpful_notes = [] then Inr db
         else batch_loader clock encode db (drop_duplicates helpful_notes))"

subsection \<open>\<open>download_latest_data\<close>\<close>

text \<open>
  The downloader talks to the network and the local file system.  Its control flow depends
  on five things only, which the model takes from a \<open>world\<close>: whether the dated TSV file of
  a dataset is already there, whether the download of the ZIP archive, of the dated TSV and
  of the TSV at the legacy URL succeed (\<open>download_file\<close> returning \<open>True\<close>), and how the
  extraction of a downloaded archive ends.  Days are counted back from today
  (\<open>days_ago\<close>).  Each file is visited once in a run, so the world is not changed by it.
\<close>

datatype dataset = Notes | NoteStatusHistory

datatype extraction = Extracted | NoTsvInZip | ExtractionFailed

record world =
  tsv_exists :: "nat \<Rightarrow> dataset \<Rightarrow> bool"
  zip_download :: "nat \<Rightarrow> dataset \<Rightarrow> bool"
  zip_extract :: "nat \<Rightarrow> dataset \<Rightarrow> extraction"
  tsv_download :: "nat \<Rightarrow> dataset \<Rightarrow> bool"
  legacy_download :: "nat \<Rightarrow> dataset \<Rightarrow> bool"

text \<open>The dictionary \<open>DATASETS\<close>, in its order.\<close>

definition DATASETS :: "dataset list" where
  "DATASETS = [Notes, NoteStatusHistory]"

datatype strategy = Zip | DatedTsv | LegacyTsv

text \<open>
  The body of the inner \<^verbatim>\<open>for\<close> loop for one dataset: the strategies it tried, in order,
  and whether the loop goes on (\<open>True\<close>) or the day is given up (\<open>success = False; break\<close>).
\<close>

definition fetch_dataset :: "world \<Rightarrow> nat \<Rightarrow> dataset \<Rightarrow> strategy list \<times> bool" where
  "fetch_dataset w days_ago ds =
     (if tsv_exists w days_ago ds then ([], True)
      else if zip_download w days_ago ds then
        (case zip_extract w days_ago ds of
           Extracted \<Rightarrow> ([Zip], True)
         | NoTsvInZip \<Rightarrow> ([Zip], False)
         | ExtractionFailed \<Rightarrow> ([Zip], False))
      else if tsv_download w days_ago ds then ([Zip, DatedTsv], True)
      else if legacy_download w days_ago ds then ([Zip, DatedTsv, LegacyTsv], True)
      else ([Zip, DatedTsv, LegacyTsv], False))"

text \<open>The inner loop over the datasets, with its \<^verbatim>\<open>break\<close>; the log and \<open>success\<close>.\<close>

fun fetch_datasets ::
  "world \<Rightarrow> nat \<Rightarrow> dataset list \<Rightarrow> (dataset \<times> strategy list) list \<times> bool" where
  "fetch_datasets w days_ago [] = ([], True)"
| "fetch_datasets w days_ago (ds # rest) =
     (case fetch_dataset w days_ago ds of
        (tried, False) \<Rightarrow> ([(ds, tried)], False)
      | (tried, True) \<Rightarrow>
          (case fetch_datasets w days_ago rest of
             (entries, ok) \<Rightarrow> ((ds, tried) # entries, ok)))"

text \<open>
  The outer loop over the days.  The result is the list of local paths of the first day that
  succeeded; a local path is named by its day and dataset.
\<close>

fun try_days :: "world \<Rightarrow> nat list \<Rightarrow> (nat \<times> dataset) list option" where
  "try_days w [] = None"
| "try_days w (d # days) =
     (if snd (fetch_datasets w d DATASETS) then Some (map (\<lambda>ds. (d, ds)) DATASETS)
      else try_days w days)"

definition download_latest_data :: "world \<Rightarrow> (nat \<times> dataset) list option" where
  "download_latest_data w = try_days w [0, 1, 2]"

section \<open>Search (\<^verbatim>\<open>app.py\<close>, \<^verbatim>\<open>check_truth.py\<close>)\<close>

text \<open>
  Distances are floating-point numbers in the code; the model takes them as reals, and the
  distance operator \<open><=>\<close> of the store as the parameter \<open>cdist\<close>.
\<close>

subsection \<open>Claim search: \<open>search\<close> in \<^verbatim>\<open>app.py\<close>\<close>

definition SIMILARITY_THRESHOLD :: real where
  "SIMILARITY_THRESHOLD = 4 / 10"

record search_result =
  res_tweet_id :: int
  res_tweet_url :: "string option"
  res_tweet_text :: "string option"
  res_note_text :: string
  res_distance :: real
  res_similarity :: real
  res_is_match :: bool

text \<open>
  The query: rows with a tweet vector, each with its distance to the query embedding, ordered
  by distance, the first five.
\<close>

definition claim_query :: "(vec \<Rightarrow> vec \<Rightarrow> real) \<Rightarrow> database \<Rightarrow> vec \<Rightarrow> (row \<times> real) list" where
  "claim_query cdist db query_embedding =
     take 5 (sort_key snd
       (List.map_filter
          (\<lambda>r. case tweet_vector r of None \<Rightarrow> None | Some v \<Rightarrow> Some (r, cdist v query_embedding))
          (fact_checks db)))"

text \<open>The dictionary built for a row of the answer.\<close>

definition result_of :: "row \<times> real \<Rightarrow> search_result" where
  "result_of hit =
     (case hit of (r, d) \<Rightarrow>
        \<lparr>res_tweet_id = tweet_id r,
         res_tweet_url = tweet_url r,
         res_tweet_text =
           (case tweet_text r of
              None \<Rightarrow> None
            | Some t \<Rightarrow> if t \<noteq> [] \<and> t \<noteq> ''MISSING_OR_DELETED'' then Some t else None),
         res_note_text = note_text r,
         res_distance = d,
         res_similarity = 1 - d,
         res_is_match = (d < SIMILARITY_THRESHOLD)\<rparr>)"

definition search ::
  "(vec \<Rightarrow> vec \<Rightarrow> real) \<Rightarrow> (string \<Rightarrow> vec) \<Rightarrow> database \<Rightarrow> string \<Rightarrow> string \<times> search_result list" where
  "search cdist encode db q = (q, map result_of (claim_query cdist db (encode q)))"

subsection \<open>Note search: \<^verbatim>\<open>check_truth.py\<close>\<close>

definition NOTE_SIMILARITY_THRESHOLD :: real where
  "NOTE_SIMILARITY_THRESHOLD = 5 / 10"

definition TOP_K :: nat where
  "TOP_K = 3"

text \<open>
  \<open>search_notes\<close> has no \<open>WHERE\<close> clause: a row without a note vector has the distance NULL,
  and \<open>ORDER BY distance ASC\<close> puts NULL last.
\<close>

definition null_last_le :: "real option \<Rightarrow> real option \<Rightarrow> bool" where
  "null_last_le a b =
     (case b of None \<Rightarrow> True | Some y \<Rightarrow> (case a of None \<Rightarrow> False | Some x \<Rightarrow> x \<le> y))"

type_synonym note_hit = "string \<times> string option \<times> real option"

fun insert_hit :: "note_hit \<Rightarrow> note_hit list \<Rightarrow> note_hit list" where
  "insert_hit h [] = [h]"
| "insert_hit h (g # gs) =
     (if null_last_le (snd (snd h)) (snd (snd g)) then h # g # gs else g # insert_hit h gs)"

definition order_by_distance :: "note_hit list \<Rightarrow> note_hit list" where
  "order_by_distance hits = foldr insert_hit hits []"

definition search_notes :: "(vec \<Rightarrow> vec \<Rightarrow> real) \<Rightarrow> database \<Rightarrow> vec \<Rightarrow> nat \<Rightarrow> note_hit list" where
  "search_notes cdist db embedding top_k =
     take top_k (order_by_distance
       (map (\<lambda>r. (note_text r, tweet_url r,
                   (case note_vector r of None \<Rightarrow> None | Some v \<Rightarrow> Some (cdist v embedding))))
          (fact_checks db)))"

text \<open>
  \<open>display_results\<close>.  What it prints is returned: nothing found, the list of relevant fact
  checks (number, similarity in percent, note text, URL), or the closest topic.  Comparing
  a NULL distance with the threshold raises \<open>TypeError\<close>.
\<close>

datatype py_error = TypeError

datatype display =
  NoMatches
| Relevant "(nat \<times> real \<times> string \<times> string option) list"
| Closest string "string option"

text \<open>The loop \<^verbatim>\<open>for i, (note_text, tweet_url, distance) in enumerate(results, 1)\<close>.\<close>

fun relevant_lines ::
  "nat \<Rightarrow> note_hit list \<Rightarrow> py_error + (nat \<times> real \<times> string \<times> string option) list" where
  "relevant_lines i [] = Inr []"
| "relevant_lines i ((txt, url, distance) # hits) =
     (case distance of
        None \<Rightarrow> Inl TypeError
      | Some d \<Rightarrow>
          if d > NOTE_SIMILARITY_THRESHOLD then relevant_lines (Suc i) hits
          else (case relevant_lines (Suc i) hits of
                  Inl e \<Rightarrow> Inl e
                | Inr ls \<Rightarrow> Inr ((i, (1 - d) * 100, txt, url) # ls)))"

definition display_results :: "note_hit list \<Rightarrow> py_error + display" where
  "display_results results =
     (case results of
        [] \<Rightarrow> Inr NoMatches
      | (txt, url, best) # _ \<Rightarrow>
          (case best of
             None \<Rightarrow> Inl TypeError
           | Some best_distance \<Rightarrow>
               if best_distance < NOTE_SIMILARITY_THRESHOLD then
                 (case relevant_lines 1 results of
                    Inl e \<Rightarrow> Inl e
                  | Inr ls \<Rightarrow> Inr (Relevant ls))
               else Inr (Closest txt url)))"

section \<open>Reachable states of the store\<close>

text \<open>What \<open>process_row\<close> does to a row it updates: used to state its effect on the table.\<close>

definition row_effect :: "api \<Rightarrow> (string \<Rightarrow> vec) \<Rightarrow> string option \<Rightarrow> row \<Rightarrow> row" where
  "row_effect fetch encode url r =
     (case fetch_tweet_details fetch url of
        None \<Rightarrow> r
      | Some (text, fmt) \<Rightarrow>
          if text = ''MISSING''
          then r\<lparr>tweet_text := Some ''MISSING_OR_DELETED'', tweet_format := Some ''Missing''\<rparr>
          else r\<lparr>tweet_text := Some text, tweet_vector := Some (encode text),
                 tweet_format := Some fmt\<rparr>)"

text \<open>
  The store changes in two ways: the loader commits a batch (\<open>insert_batch\<close> without error),
  or the enrichment loop works through some of the rows of a pass, each update committed on
  its own (so a pass may stop after any \<open>k\<close> rows).  \<open>apis\<close> is the set of behaviours the
  content API may show in a pass.  The store starts empty.
\<close>

inductive step :: "api set \<Rightarrow> (string \<Rightarrow> vec) \<Rightarrow> database \<Rightarrow> database \<Rightarrow> bool"
  for apis :: "api set" and encode :: "string \<Rightarrow> vec" where
  load_step: "insert_batch now db batch_data = Inr db' \<Longrightarrow> step apis encode db db'"
| enrich_step:
    "fetch \<in> apis \<Longrightarrow>
     step apis encode db (process_rows fetch encode db (take k (get_null_rows db BATCH_SIZE)))"

definition reachable :: "api set \<Rightarrow> (string \<Rightarrow> vec) \<Rightarrow> database \<Rightarrow> bool" where
  "reachable apis encode db = (step apis encode)\<^sup>*\<^sup>* empty_db db"

text \<open>
  The keys of the table: \<open>id\<close> and \<open>tweet_id\<close> are unique, and every \<open>id\<close> was taken from
  the sequence.
\<close>

definition keys_ok :: "database \<Rightarrow> bool" where
  "keys_ok db =
     (distinct (map row_id (fact_checks db)) \<and> distinct (map tweet_id (fact_checks db)) \<and>
      (\<forall>r \<in> set (fact_checks db). row_id r < id_seq db))"

text \<open>
  What holds of every row of a reachable store: a tweet vector comes with a tweet text; a
  tweet text other than the marker of a missing tweet comes with a vector; a row marked
  \<open>Missing\<close> has the marker as its text and no vector.
\<close>

definition row_ok :: "row \<Rightarrow> bool" where
  "row_ok r =
     ((tweet_vector r \<noteq> None \<longrightarrow> tweet_text r \<noteq> None) \<and>
      (tweet_text r \<noteq> None \<and> tweet_text r \<noteq> Some ''MISSING_OR_DELETED'' \<longrightarrow> tweet_vector r \<noteq> None) \<and>
      (tweet_format r = Some ''Missing'' \<longrightarrow>
         tweet_text r = Some ''MISSING_OR_DELETED'' \<and> tweet_vector r = None))"

definition store_ok :: "database \<Rightarrow> bool" where
  "store_ok db = (keys_ok db \<and> list_all row_ok (fact_checks db))"

text \<open>A selection whose rows are pairwise different and all still without tweet text.\<close>

definition pending :: "database \<Rightarrow> (nat \<times> string option) list \<Rightarrow> bool" where
  "pending db sels =
     (distinct (map fst sels) \<and>
      (\<forall>s \<in> set sels. \<forall>r \<in> set (fact_checks db). row_id r = fst s \<longrightarrow> tweet_text r = None))"

text \<open>Two rows are the same row as far as enrichment goes.\<close>

definition same_enrichment :: "row \<Rightarrow> row \<Rightarrow> bool" where
  "same_enrichment r r' =
     (row_id r' = row_id r \<and> tweet_id r' = tweet_id r \<and> tweet_text r' = tweet_text r \<and>
      tweet_vector r' = tweet_vector r \<and> tweet_format r' = tweet_format r \<and>
      created_at r' = created_at r)"

section \<open>Example stores\<close>

text \<open>
  Concrete inputs on which the theorems below are instantiated: an embedding, three
  behaviours of the content API, and the stores reached from the empty store by loading one
  note about tweet 99 and enriching it.
\<close>

definition example_encode :: "string \<Rightarrow> vec" where
  "example_encode s = replicate 384 (real (length s))"

definition api_not_found :: api where
  "api_not_found tid = NotFound"

definition api_down :: api where
  "api_down tid = RequestError"

definition api_text :: "string \<Rightarrow> api" where
  "api_text t tid = Success \<lparr>json_text = Some t, json_video = False, json_photos = None\<rparr>"

definition item99 :: batch_item where
  "item99 = (99, ''https://twitter.com/i/web/status/99'', ''Fact check text'', replicate 384 15)"

definition row99 :: row where
  "row99 = \<lparr>row_id = 1, tweet_id = 99, tweet_url = Some ''https://twitter.com/i/web/status/99'',
     tweet_text = None, tweet_vector = None, note_text = ''Fact check text'',
     note_vector = Some (replicate 384 15), created_at = 7, tweet_format = None\<rparr>"

definition row99_missing :: row where
  "row99_missing = row99\<lparr>tweet_text := Some ''MISSING_OR_DELETED'', tweet_format := Some ''Missing''\<rparr>"

definition db_loaded :: database where
  "db_loaded = \<lparr>fact_checks = [row99], id_seq = 2\<rparr>"

definition db_missing :: database where
  "db_missing = \<lparr>fact_checks = [row99_missing], id_seq = 2\<rparr>"

definition db_missing_reloaded :: database where
  "db_missing_reloaded = \<lparr>fact_checks = [row99_missing], id_seq = 3\<rparr>"

section \<open>Notions used in the claims\<close>

subsection \<open>The marker of a missing tweet\<close>

text \<open>
  A behaviour of the content API that never gives, as the text of a tweet, the marker that
  \<open>update_row\<close> writes for a missing tweet.
\<close>

definition honest :: "api \<Rightarrow> bool" where
  "honest fetch = (\<forall>tid d. fetch tid = Success d \<longrightarrow> json_text d \<noteq> Some ''MISSING_OR_DELETED'')"

text \<open>The invariant of the data model on \<open>tweet_vector\<close> and \<open>tweet_text\<close>, for one row.\<close>

definition vector_iff_text :: "row \<Rightarrow> bool" where
  "vector_iff_text r =
     ((tweet_vector r \<noteq> None) =
      (tweet_text r \<noteq> None \<and> tweet_text r \<noteq> Some ''MISSING_OR_DELETED''))"

text \<open>
  The store after enriching tweet 99 from a response whose text is the marker itself, the
  store after enriching it from an ordinary response, and a distance for the examples.
\<close>

definition row99_sentinel :: row where
  "row99_sentinel = row99\<lparr>tweet_text := Some ''MISSING_OR_DELETED'', tweet_vector := Some (replicate 384 18),
     tweet_format := Some ''Text''\<rparr>"

definition db_sentinel :: database where
  "db_sentinel = \<lparr>fact_checks = [row99_sentinel], id_seq = 2\<rparr>"

definition row99_enriched :: row where
  "row99_enriched = row99\<lparr>tweet_text := Some ''A claim'', tweet_vector := Some (replicate 384 7),
     tweet_format := Some ''Text''\<rparr>"

definition db_enriched :: database where
  "db_enriched = \<lparr>fact_checks = [row99_enriched], id_seq = 2\<rparr>"

definition example_cdist :: "vec \<Rightarrow> vec \<Rightarrow> real" where
  "example_cdist a b = \<bar>sum_list a - sum_list b\<bar> / 10"

text \<open>A row whose text is the marker has no vector (and no row has a vector without text).\<close>

definition no_vector_on_marker :: "row \<Rightarrow> bool" where
  "no_vector_on_marker r =
     ((tweet_vector r \<noteq> None \<longrightarrow> tweet_text r \<noteq> None) \<and>
      (tweet_text r = Some ''MISSING_OR_DELETED'' \<longrightarrow> tweet_vector r = None))"

text \<open>The answer of the claim search for \<open>A claim\<close> on the enriched example store.\<close>

definition result99 :: search_result where
  "result99 =
     \<lparr>res_tweet_id = 99, res_tweet_url = Some ''https://twitter.com/i/web/status/99'',
      res_tweet_text = Some ''A claim'', res_note_text = ''Fact check text'',
      res_distance = 0, res_similarity = 1, res_is_match = True\<rparr>"

subsection \<open>Termination of the enrichment loop\<close>


text \<open>What \<open>process_rows\<close> does to a row of the table.\<close>

fun rows_effect ::
  "api \<Rightarrow> (string \<Rightarrow> vec) \<Rightarrow> (nat \<times> string option) list \<Rightarrow> row \<Rightarrow> row" where
  "rows_effect fetch encode [] r = r"
| "rows_effect fetch encode (sel # sels) r =
     rows_effect fetch encode sels
       (if row_id r = fst sel then row_effect fetch encode (snd sel) r else r)"



subsection \<open>Filter and dedup\<close>

text \<open>
  The condition of the specification for keeping a note: some status record of its \<open>noteId\<close>
  has the status \<open>CURRENTLY_RATED_HELPFUL\<close>.
\<close>

definition rated_helpful :: "status_row list \<Rightarrow> note_row \<Rightarrow> bool" where
  "rated_helpful status_df n =
     list_ex (\<lambda>s. status_noteId s = noteId n \<and> currentStatus s = ''CURRENTLY_RATED_HELPFUL'')
       status_df"

text \<open>Example tables: two helpful notes on tweet 42, one on tweet 7 whose status is listed
  twice, and a note on tweet 8 that is not rated helpful.\<close>

definition example_notes :: "note_row list" where
  "example_notes =
     [\<lparr>noteId = 1, tweetId = 42, summary = Some ''first''\<rparr>,
      \<lparr>noteId = 2, tweetId = 42, summary = Some ''second''\<rparr>,
      \<lparr>noteId = 3, tweetId = 7, summary = None\<rparr>,
      \<lparr>noteId = 4, tweetId = 8, summary = Some ''pending''\<rparr>]"

definition example_status :: "status_row list" where
  "example_status =
     [\<lparr>status_noteId = 1, currentStatus = ''CURRENTLY_RATED_HELPFUL''\<rparr>,
      \<lparr>status_noteId = 2, currentStatus = ''CURRENTLY_RATED_HELPFUL''\<rparr>,
      \<lparr>status_noteId = 3, currentStatus = ''CURRENTLY_RATED_HELPFUL''\<rparr>,
      \<lparr>status_noteId = 3, currentStatus = ''CURRENTLY_RATED_HELPFUL''\<rparr>,
      \<lparr>status_noteId = 4, currentStatus = ''NEEDS_MORE_RATINGS''\<rparr>]"

subsection \<open>The loader as a sequence of upserts\<close>


text \<open>
  A proposed row that the store accepts, and a note from which the loader builds such a row
  (its URL is made of digits and never holds a NUL character).
\<close>

definition storable :: "batch_item \<Rightarrow> bool" where
  "storable item =
     (no_nul (fst (snd item)) \<and> no_nul (fst (snd (snd item))) \<and> in_bigint (fst item) \<and>
      length (snd (snd (snd item))) = VECTOR_DIM)"








subsection \<open>The downloader\<close>

text \<open>
  When the downloader has a dataset of a day: the file is already there; or the archive
  downloads and a TSV is extracted from it; or the archive does not download and one of the
  two uncompressed downloads succeeds.
\<close>

definition dataset_ready :: "world \<Rightarrow> nat \<Rightarrow> dataset \<Rightarrow> bool" where
  "dataset_ready w days_ago ds =
     (tsv_exists w days_ago ds \<or>
      (if zip_download w days_ago ds then zip_extract w days_ago ds = Extracted
       else tsv_download w days_ago ds \<or> legacy_download w days_ago ds))"

text \<open>
  Two worlds.  In the first every archive downloads but holds no TSV, while every
  uncompressed file could be downloaded.  In the second nothing is there for today; for
  yesterday the notes come as an archive and the status history from the legacy URL.
\<close>

definition world_empty_zip :: world where
  "world_empty_zip =
     \<lparr>tsv_exists = (\<lambda>d ds. False), zip_download = (\<lambda>d ds. True),
      zip_extract = (\<lambda>d ds. NoTsvInZip), tsv_download = (\<lambda>d ds. True),
      legacy_download = (\<lambda>d ds. True)\<rparr>"

definition world_yesterday :: world where
  "world_yesterday =
     \<lparr>tsv_exists = (\<lambda>d ds. False),
      zip_download = (\<lambda>d ds. d = 1 \<and> ds = Notes),
      zip_extract = (\<lambda>d ds. Extracted),
      tsv_download = (\<lambda>d ds. False),
      legacy_download = (\<lambda>d ds. d = 1 \<and> ds = NoteStatusHistory)\<rparr>"

subsection \<open>The note search\<close>

text \<open>A hit of the note search is listed by \<open>display_results\<close> among the relevant fact checks.\<close>

definition shown_relevant :: "display \<Rightarrow> string \<Rightarrow> string option \<Rightarrow> real \<Rightarrow> bool" where
  "shown_relevant out txt url d =
     (case out of
        Relevant ls \<Rightarrow> list_ex (\<lambda>l. snd l = ((1 - d) * 100, txt, url)) ls
      | _ \<Rightarrow> False)"

text \<open>A store with two notes, at the distances 0.3 and 0.5 from the example query.\<close>

definition db_notes :: database where
  "db_notes =
     \<lparr>fact_checks =
        [\<lparr>row_id = 1, tweet_id = 42, tweet_url = Some ''u42'',
          tweet_text = None, tweet_vector = None, note_text = ''far'',
          note_vector = Some [5], created_at = 7, tweet_format = None\<rparr>,
         \<lparr>row_id = 2, tweet_id = 7, tweet_url = Some ''u7'',
          tweet_text = None, tweet_vector = None, note_text = ''near'',
          note_vector = Some [3], created_at = 7, tweet_format = None\<rparr>],
      id_seq = 3\<rparr>"

section \<open>Invariants of the store\<close>

lemma process_row_rows:
  "fact_checks (process_row fetch encode db sel) =
     map (\<lambda>r. if row_id r = fst sel then row_effect fetch encode (snd sel) r else r) (fact_checks db)"
proof (cases "fetch_tweet_details fetch (snd sel)")
  case None
  then show ?thesis by (simp add: process_row_def row_effect_def cong: if_cong)
next
  case (Some res)
  then show ?thesis
    by (cases res)
      (simp add: process_row_def row_effect_def update_row_def update_where_id_def cong: if_cong)
qed

lemma process_row_seq: "id_seq (process_row fetch encode db sel) = id_seq db"
  by (auto simp: process_row_def update_row_def update_where_id_def split: option.splits prod.splits)

lemma row_effect_ids:
  "row_id (row_effect fetch encode url r) = row_id r"
  "tweet_id (row_effect fetch encode url r) = tweet_id r"
  by (auto simp: row_effect_def split: option.splits prod.splits)

lemma detect_format_not_missing: "detect_format d \<noteq> ''Missing''"
  by (simp add: detect_format_def)

lemma fetch_format_not_missing:
  "fetch_tweet_details fetch url = Some (t, fmt) \<Longrightarrow> fmt \<noteq> ''Missing''"
  by (auto simp: fetch_tweet_details_def detect_format_not_missing
      split: option.splits response.splits)

lemma row_effect_ok:
  "row_ok r \<Longrightarrow> tweet_text r = None \<Longrightarrow> row_ok (row_effect fetch encode url r)"
  by (auto simp: row_ok_def row_effect_def dest: fetch_format_not_missing
      split: option.splits prod.splits)

lemma process_row_row_ids:
  "map row_id (fact_checks (process_row fetch encode db sel)) = map row_id (fact_checks db)"
  by (simp add: process_row_rows row_effect_ids o_def cong: if_cong)

lemma process_row_tweet_ids:
  "map tweet_id (fact_checks (process_row fetch encode db sel)) = map tweet_id (fact_checks db)"
  by (simp add: process_row_rows row_effect_ids o_def cong: if_cong)

lemma process_row_keys_ok: "keys_ok db \<Longrightarrow> keys_ok (process_row fetch encode db sel)"
  unfolding keys_ok_def process_row_row_ids process_row_tweet_ids process_row_seq
  by (auto simp: process_row_rows row_effect_ids)

lemma process_row_store_ok:
  assumes "store_ok db"
    and "\<forall>r \<in> set (fact_checks db). row_id r = fst sel \<longrightarrow> tweet_text r = None"
  shows "store_ok (process_row fetch encode db sel)"
  using assms
  by (auto simp: store_ok_def process_row_keys_ok process_row_rows list_all_iff row_effect_ok)

lemma process_row_pending:
  assumes "pending db (sel # sels)"
  shows "pending (process_row fetch encode db sel) sels"
proof -
  have d: "distinct (map fst sels)" and fresh: "fst sel \<notin> fst ` set sels"
    using assms by (auto simp: pending_def)
  have "tweet_text r' = None"
    if s: "s \<in> set sels" and r': "r' \<in> set (fact_checks (process_row fetch encode db sel))"
      and eq: "row_id r' = fst s" for s r'
  proof -
    from r' obtain r where r: "r \<in> set (fact_checks db)"
      and r'_def: "r' = (if row_id r = fst sel then row_effect fetch encode (snd sel) r else r)"
      unfolding process_row_rows by auto
    have "row_id r' = row_id r" using r'_def by (simp add: row_effect_ids)
    with eq s fresh have "row_id r \<noteq> fst sel" by force
    with r'_def have "r' = r" by simp
    moreover have "tweet_text r = None"
      using assms s r eq \<open>row_id r' = row_id r\<close> by (auto simp: pending_def)
    ultimately show ?thesis by simp
  qed
  with d show ?thesis unfolding pending_def by blast
qed

lemma process_rows_store_ok:
  "store_ok db \<Longrightarrow> pending db sels \<Longrightarrow> store_ok (process_rows fetch encode db sels)"
proof (induction sels arbitrary: db)
  case Nil
  then show ?case by simp
next
  case (Cons sel sels)
  have "store_ok (process_row fetch encode db sel)"
    using Cons.prems by (intro process_row_store_ok) (auto simp: pending_def)
  moreover have "pending (process_row fetch encode db sel) sels"
    using Cons.prems(2) by (rule process_row_pending)
  ultimately show ?case using Cons.IH by simp
qed

lemma selected_row:
  assumes "s \<in> set (get_null_rows db n)"
  shows "\<exists>r \<in> set (fact_checks db). needs_enrichment r \<and> s = (row_id r, tweet_url r)"
proof -
  from assms have "s \<in> set (map (\<lambda>r. (row_id r, tweet_url r)) (filter needs_enrichment (fact_checks db)))"
    unfolding get_null_rows_def by (rule in_set_takeD)
  then show ?thesis by auto
qed

lemma same_row_id:
  assumes "distinct (map row_id rs)" "r \<in> set rs" "r' \<in> set rs" "row_id r = row_id r'"
  shows "r = r'"
  using assms by (meson distinct_map inj_onD)

lemma get_null_rows_distinct:
  assumes "distinct (map row_id (fact_checks db))"
  shows "distinct (map fst (get_null_rows db n))"
proof -
  have "map fst (get_null_rows db n) = take n (map row_id (filter needs_enrichment (fact_checks db)))"
    by (simp add: get_null_rows_def take_map o_def)
  moreover have "distinct (map row_id (filter needs_enrichment (fact_checks db)))"
    using assms by (rule distinct_map_filter)
  ultimately show ?thesis by simp
qed

lemma get_null_rows_pending:
  assumes "keys_ok db"
  shows "pending db (take k (get_null_rows db n))"
proof -
  have d: "distinct (map row_id (fact_checks db))"
    using assms by (simp add: keys_ok_def)
  have "distinct (map fst (take k (get_null_rows db n)))"
    using get_null_rows_distinct [OF d, of n] by (simp add: take_map [symmetric])
  moreover have "tweet_text r = None"
    if "s \<in> set (take k (get_null_rows db n))" "r \<in> set (fact_checks db)" "row_id r = fst s" for s r
  proof -
    from that(1) have "s \<in> set (get_null_rows db n)" by (rule in_set_takeD)
    then obtain r0 where r0: "r0 \<in> set (fact_checks db)" "needs_enrichment r0" "s = (row_id r0, tweet_url r0)"
      using selected_row by blast
    with that have "r = r0" using same_row_id [OF d] by simp
    with r0 show ?thesis by (simp add: needs_enrichment_def)
  qed
  ultimately show ?thesis unfolding pending_def by blast
qed

lemma enrich_step_store_ok:
  "store_ok db \<Longrightarrow>
   store_ok (process_rows fetch encode db (take k (get_null_rows db n)))"
  by (rule process_rows_store_ok) (auto simp: store_ok_def get_null_rows_pending)

lemma upsert_store_ok:
  assumes "store_ok db"
  shows "store_ok (upsert now db item)"
proof -
  obtain tid url note_txt note_vec where item: "item = (tid, url, note_txt, note_vec)"
    by (cases item) auto
  show ?thesis
  proof (cases "list_ex (\<lambda>r. tweet_id r = tid) (fact_checks db)")
    case True
    let ?f = "\<lambda>r. if tweet_id r = tid
                then r\<lparr>tweet_url := Some url, note_text := note_txt, note_vector := Some note_vec\<rparr>
                else r"
    have rows: "fact_checks (upsert now db item) = map ?f (fact_checks db)"
      and seq: "id_seq (upsert now db item) = Suc (id_seq db)"
      using True by (simp_all add: upsert_def item)
    have ids: "map row_id (map ?f (fact_checks db)) = map row_id (fact_checks db)"
      and tids: "map tweet_id (map ?f (fact_checks db)) = map tweet_id (fact_checks db)"
      by (simp_all add: o_def cong: if_cong)
    have "row_id r < Suc (id_seq db)" if "r \<in> set (map ?f (fact_checks db))" for r
      using that assms by (auto simp: store_ok_def keys_ok_def less_Suc_eq split: if_splits)
    then have "keys_ok (upsert now db item)"
      using assms unfolding keys_ok_def rows seq ids tids
      by (simp add: store_ok_def keys_ok_def)
    moreover have "row_ok (r\<lparr>tweet_url := Some url, note_text := note_txt,
        note_vector := Some note_vec\<rparr>) = row_ok r" for r
      by (simp add: row_ok_def)
    then have "list_all row_ok (map ?f (fact_checks db))"
      using assms by (auto simp: store_ok_def list_all_iff)
    ultimately show ?thesis by (simp add: store_ok_def rows)
  next
    case False
    let ?new = "\<lparr>row_id = id_seq db, tweet_id = tid, tweet_url = Some url,
                  tweet_text = None, tweet_vector = None, note_text = note_txt,
                  note_vector = Some note_vec, created_at = now, tweet_format = None\<rparr>"
    have rows: "fact_checks (upsert now db item) = fact_checks db @ [?new]"
      and seq: "id_seq (upsert now db item) = Suc (id_seq db)"
      using False by (simp_all add: upsert_def item)
    have "tid \<notin> tweet_id ` set (fact_checks db)"
      using False by (auto simp: list_ex_iff)
    moreover have "id_seq db \<notin> row_id ` set (fact_checks db)"
      using assms by (auto simp: store_ok_def keys_ok_def)
    ultimately have "keys_ok (upsert now db item)"
      using assms unfolding keys_ok_def store_ok_def rows seq by (auto simp: less_Suc_eq)
    moreover have "row_ok ?new" by (simp add: row_ok_def)
    ultimately show ?thesis using assms by (simp add: store_ok_def rows)
  qed
qed

lemma foldl_upsert_store_ok:
  "store_ok db \<Longrightarrow> store_ok (foldl (upsert now) db items)"
  by (induction items arbitrary: db) (simp_all add: upsert_store_ok)

lemma insert_statement_store_ok:
  "store_ok db \<Longrightarrow> insert_statement now db items = Inr db' \<Longrightarrow> store_ok db'"
  by (auto simp: insert_statement_def foldl_upsert_store_ok split: if_splits)

lemma insert_pages_store_ok:
  "store_ok db \<Longrightarrow> insert_pages now db pages = Inr db' \<Longrightarrow> store_ok db'"
proof (induction pages arbitrary: db)
  case Nil
  then show ?case by simp
next
  case (Cons p ps)
  then show ?case
    by (auto split: sum.splits dest: insert_statement_store_ok)
qed

lemma insert_batch_store_ok:
  "store_ok db \<Longrightarrow> insert_batch now db batch_data = Inr db' \<Longrightarrow> store_ok db'"
  unfolding insert_batch_def by (rule insert_pages_store_ok)

lemma empty_db_store_ok: "store_ok empty_db"
  by (simp add: store_ok_def keys_ok_def empty_db_def)

lemma step_store_ok: "step apis encode db db' \<Longrightarrow> store_ok db \<Longrightarrow> store_ok db'"
  by (induction rule: step.induct) (auto intro: insert_batch_store_ok enrich_step_store_ok)

lemma steps_store_ok: "(step apis encode)\<^sup>*\<^sup>* db db' \<Longrightarrow> store_ok db \<Longrightarrow> store_ok db'"
  by (induction rule: rtranclp_induct) (auto intro: step_store_ok)

lemma reachable_store_ok: "reachable apis encode db \<Longrightarrow> store_ok db"
  unfolding reachable_def using steps_store_ok empty_db_store_ok by blast

section \<open>Records marked missing stay as they are\<close>

lemma missing_not_selected:
  assumes "distinct (map row_id (fact_checks db))" "r \<in> set (fact_checks db)"
    and "tweet_format r = Some ''Missing''"
  shows "row_id r \<notin> fst ` set (get_null_rows db n)"
proof
  assume "row_id r \<in> fst ` set (get_null_rows db n)"
  then obtain s where s: "s \<in> set (get_null_rows db n)" "fst s = row_id r" by force
  then obtain r0 where r0: "r0 \<in> set (fact_checks db)" "needs_enrichment r0"
    "s = (row_id r0, tweet_url r0)"
    using selected_row by blast
  with s assms have "r = r0" by (intro same_row_id [OF assms(1)]) simp_all
  with r0 assms(3) show False by (simp add: needs_enrichment_def)
qed

lemma process_row_untouched:
  "r \<in> set (fact_checks db) \<Longrightarrow> row_id r \<noteq> fst sel \<Longrightarrow>
   r \<in> set (fact_checks (process_row fetch encode db sel))"
  unfolding process_row_rows by force

lemma process_rows_untouched:
  "r \<in> set (fact_checks db) \<Longrightarrow> row_id r \<notin> fst ` set sels \<Longrightarrow>
   r \<in> set (fact_checks (process_rows fetch encode db sels))"
proof (induction sels arbitrary: db)
  case Nil
  then show ?case by simp
next
  case (Cons sel sels)
  then show ?case by (simp add: process_row_untouched)
qed

lemma upsert_keeps_enrichment:
  assumes "r \<in> set (fact_checks db)"
  shows "\<exists>r' \<in> set (fact_checks (upsert now db item)).
           row_id r' = row_id r \<and> tweet_id r' = tweet_id r \<and> tweet_text r' = tweet_text r \<and>
           tweet_vector r' = tweet_vector r \<and> tweet_format r' = tweet_format r \<and>
           created_at r' = created_at r"
proof -
  obtain tid url note_txt note_vec where item: "item = (tid, url, note_txt, note_vec)"
    by (cases item) auto
  show ?thesis
  proof (cases "list_ex (\<lambda>r. tweet_id r = tid) (fact_checks db)")
    case True
    let ?f = "\<lambda>r. if tweet_id r = tid
                then r\<lparr>tweet_url := Some url, note_text := note_txt, note_vector := Some note_vec\<rparr>
                else r"
    have "fact_checks (upsert now db item) = map ?f (fact_checks db)"
      using True by (simp add: upsert_def item)
    then have "?f r \<in> set (fact_checks (upsert now db item))"
      using assms by simp
    then show ?thesis by (rule rev_bexI) simp
  next
    case False
    then have "r \<in> set (fact_checks (upsert now db item))"
      using assms by (simp add: upsert_def item)
    then show ?thesis by blast
  qed
qed

lemma foldl_upsert_keeps:
  "r \<in> set (fact_checks db) \<Longrightarrow>
   \<exists>r' \<in> set (fact_checks (foldl (upsert now) db items)). same_enrichment r r'"
proof (induction items arbitrary: db r)
  case Nil
  then show ?case by (auto simp: same_enrichment_def)
next
  case (Cons item items)
  from upsert_keeps_enrichment [OF Cons.prems, of now item]
  obtain r1 where r1: "r1 \<in> set (fact_checks (upsert now db item))" "same_enrichment r r1"
    by (auto simp: same_enrichment_def)
  from Cons.IH [OF r1(1)] obtain r' where
    "r' \<in> set (fact_checks (foldl (upsert now) (upsert now db item) items))" "same_enrichment r1 r'"
    by blast
  with r1(2) show ?case by (auto simp: same_enrichment_def)
qed

lemma insert_pages_keeps:
  "insert_pages now db pages = Inr db' \<Longrightarrow> r \<in> set (fact_checks db) \<Longrightarrow>
   \<exists>r' \<in> set (fact_checks db'). same_enrichment r r'"
proof (induction pages arbitrary: db r)
  case Nil
  then show ?case by (auto simp: same_enrichment_def)
next
  case (Cons p ps)
  from Cons.prems(1) obtain db1 where db1: "insert_statement now db p = Inr db1"
    "insert_pages now db1 ps = Inr db'"
    by (auto split: sum.splits)
  from db1(1) have "db1 = foldl (upsert now) db p"
    by (auto simp: insert_statement_def split: if_splits)
  with foldl_upsert_keeps [OF Cons.prems(2), of now p]
  obtain r1 where r1: "r1 \<in> set (fact_checks db1)" "same_enrichment r r1" by blast
  from Cons.IH [OF db1(2) r1(1)] obtain r' where
    "r' \<in> set (fact_checks db')" "same_enrichment r1 r'" by blast
  with r1(2) show ?case by (auto simp: same_enrichment_def)
qed

lemma step_keeps_missing:
  assumes "step apis encode db db'" "store_ok db" "r \<in> set (fact_checks db)"
    and "tweet_format r = Some ''Missing''"
  shows "\<exists>r' \<in> set (fact_checks db'). row_id r' = row_id r \<and> tweet_format r' = Some ''Missing''"
  using assms
proof (induction rule: step.induct)
  case (load_step now db batch_data db')
  then obtain r' where "r' \<in> set (fact_checks db')" "same_enrichment r r'"
    unfolding insert_batch_def using insert_pages_keeps by blast
  with load_step.prems show ?case by (auto simp: same_enrichment_def)
next
  case (enrich_step fetch db k)
  have "distinct (map row_id (fact_checks db))"
    using enrich_step.prems by (simp add: store_ok_def keys_ok_def)
  then have "row_id r \<notin> fst ` set (get_null_rows db BATCH_SIZE)"
    using enrich_step.prems by (intro missing_not_selected)
  then have "row_id r \<notin> fst ` set (take k (get_null_rows db BATCH_SIZE))"
    by (auto dest: in_set_takeD)
  then have "r \<in> set (fact_checks (process_rows fetch encode db (take k (get_null_rows db BATCH_SIZE))))"
    using enrich_step.prems by (intro process_rows_untouched)
  with enrich_step.prems show ?case by blast
qed

section \<open>The example stores are reachable\<close>

lemma step_empty_loaded: "step apis example_encode empty_db db_loaded"
proof -
  have "insert_batch 7 empty_db [item99] = Inr db_loaded"
    by code_simp
  then show ?thesis by (rule load_step)
qed

lemma step_loaded_missing: "step UNIV example_encode db_loaded db_missing"
proof -
  have "process_rows api_not_found example_encode db_loaded
          (take 1 (get_null_rows db_loaded BATCH_SIZE)) = db_missing"
    by code_simp
  moreover have "step UNIV example_encode db_loaded
     (process_rows api_not_found example_encode db_loaded
        (take 1 (get_null_rows db_loaded BATCH_SIZE)))"
    by (rule enrich_step) simp
  ultimately show ?thesis by simp
qed

lemma step_missing_reloaded: "step apis example_encode db_missing db_missing_reloaded"
proof -
  have "insert_batch 8 db_missing [item99] = Inr db_missing_reloaded"
    by code_simp
  then show ?thesis by (rule load_step)
qed

lemma reachable_db_loaded: "reachable apis example_encode db_loaded"
  unfolding reachable_def using step_empty_loaded by (rule r_into_rtranclp)

lemma reachable_db_missing: "reachable UNIV example_encode db_missing"
  using reachable_db_loaded [of UNIV] step_loaded_missing
  unfolding reachable_def by (rule rtranclp.rtrancl_into_rtrancl)

section \<open>Row properties kept by every step\<close>

lemma process_rows_list_all:
  assumes "\<And>r u. Q r \<Longrightarrow> tweet_text r = None \<Longrightarrow> Q (row_effect fetch encode u r)"
  shows "pending db sels \<Longrightarrow> list_all Q (fact_checks db) \<Longrightarrow>
         list_all Q (fact_checks (process_rows fetch encode db sels))"
proof (induction sels arbitrary: db)
  case Nil
  then show ?case by simp
next
  case (Cons sel sels)
  have "list_all Q (fact_checks (process_row fetch encode db sel))"
    using Cons.prems assms by (auto simp: process_row_rows list_all_iff pending_def)
  moreover have "pending (process_row fetch encode db sel) sels"
    using Cons.prems(1) by (rule process_row_pending)
  ultimately show ?case using Cons.IH by simp
qed

lemma upsert_list_all:
  assumes upd: "\<And>r u t v. Q r \<Longrightarrow> Q (r\<lparr>tweet_url := u, note_text := t, note_vector := v\<rparr>)"
    and new: "\<And>r. tweet_text r = None \<Longrightarrow> tweet_vector r = None \<Longrightarrow> Q r"
    and "list_all Q (fact_checks db)"
  shows "list_all Q (fact_checks (upsert now db item))"
proof -
  obtain tid url note_txt note_vec where item: "item = (tid, url, note_txt, note_vec)"
    by (cases item) auto
  show ?thesis
    using assms(3) by (auto simp: upsert_def item list_all_iff intro: upd new)
qed

lemma insert_batch_list_all:
  assumes upd: "\<And>r u t v. Q r \<Longrightarrow> Q (r\<lparr>tweet_url := u, note_text := t, note_vector := v\<rparr>)"
    and new: "\<And>r. tweet_text r = None \<Longrightarrow> tweet_vector r = None \<Longrightarrow> Q r"
    and "insert_batch now db batch_data = Inr db'"
    and "list_all Q (fact_checks db)"
  shows "list_all Q (fact_checks db')"
proof -
  have fold: "list_all Q (fact_checks d) \<Longrightarrow> list_all Q (fact_checks (foldl (upsert now) d items))"
    for d items
    by (induction items arbitrary: d) (simp_all add: upsert_list_all [where Q = Q, OF upd new])
  have pages: "insert_pages now d ps = Inr d' \<Longrightarrow> list_all Q (fact_checks d) \<Longrightarrow>
      list_all Q (fact_checks d')" for d d' ps
  proof (induction ps arbitrary: d)
    case Nil
    then show ?case by simp
  next
    case (Cons p ps)
    then show ?case
      by (auto simp: insert_statement_def fold split: sum.splits if_splits)
  qed
  show ?thesis using assms(3,4) unfolding insert_batch_def by (rule pages)
qed

lemma honest_text:
  assumes "honest fetch" "fetch_tweet_details fetch u = Some (t, fmt)" "t \<noteq> ''MISSING''"
  shows "t \<noteq> ''MISSING_OR_DELETED''"
  using assms
  by (auto simp: fetch_tweet_details_def honest_def split: option.splits response.splits)

lemma row_effect_no_vector_on_marker:
  assumes "honest fetch" "no_vector_on_marker r" "tweet_text r = None"
  shows "no_vector_on_marker (row_effect fetch encode u r)"
proof (cases "fetch_tweet_details fetch u")
  case None
  then show ?thesis using assms by (simp add: row_effect_def)
next
  case (Some res)
  obtain t fmt where res: "res = (t, fmt)" by (cases res) auto
  show ?thesis
  proof (cases "t = ''MISSING''")
    case True
    then show ?thesis using assms Some res by (auto simp: row_effect_def no_vector_on_marker_def)
  next
    case False
    with honest_text [OF assms(1), of u t fmt] Some res have "t \<noteq> ''MISSING_OR_DELETED''" by simp
    then show ?thesis using False Some res by (simp add: row_effect_def no_vector_on_marker_def)
  qed
qed

lemma step_no_vector_on_marker:
  assumes "step apis encode db db'" "\<forall>fetch \<in> apis. honest fetch" "store_ok db"
    and "list_all no_vector_on_marker (fact_checks db)"
  shows "list_all no_vector_on_marker (fact_checks db')"
  using assms
proof (induction rule: step.induct)
  case (load_step now db batch_data db')
  show ?case
    by (rule insert_batch_list_all [where Q = no_vector_on_marker, OF _ _ load_step.hyps load_step.prems(3)])
      (simp_all add: no_vector_on_marker_def)
next
  case (enrich_step fetch db k)
  then have h: "honest fetch" by blast
  have "pending db (take k (get_null_rows db BATCH_SIZE))"
    using enrich_step.prems by (intro get_null_rows_pending) (simp add: store_ok_def)
  then show ?case
    using enrich_step.prems(3)
    by (rule process_rows_list_all [where Q = no_vector_on_marker, rotated])
      (rule row_effect_no_vector_on_marker [OF h])
qed

lemma reachable_no_vector_on_marker:
  assumes "reachable apis encode db" "\<forall>fetch \<in> apis. honest fetch"
  shows "list_all no_vector_on_marker (fact_checks db)"
proof -
  have "(step apis encode)\<^sup>*\<^sup>* empty_db db" using assms(1) by (simp add: reachable_def)
  then have "store_ok db \<and> list_all no_vector_on_marker (fact_checks db)"
  proof (induction rule: rtranclp_induct)
    case base
    then show ?case by (simp add: empty_db_store_ok) (simp add: empty_db_def)
  next
    case (step y z)
    then show ?case
      using step_store_ok step_no_vector_on_marker [OF step.hyps(2) assms(2)] by blast
  qed
  then show ?thesis by simp
qed

lemma step_loaded_sentinel: "step UNIV example_encode db_loaded db_sentinel"
proof -
  have "process_rows (api_text ''MISSING_OR_DELETED'') example_encode db_loaded
          (take 1 (get_null_rows db_loaded BATCH_SIZE)) = db_sentinel"
    by code_simp
  moreover have "step UNIV example_encode db_loaded
     (process_rows (api_text ''MISSING_OR_DELETED'') example_encode db_loaded
        (take 1 (get_null_rows db_loaded BATCH_SIZE)))"
    by (rule enrich_step) simp
  ultimately show ?thesis by simp
qed

lemma reachable_db_sentinel: "reachable UNIV example_encode db_sentinel"
  using reachable_db_loaded [of UNIV] step_loaded_sentinel
  unfolding reachable_def by (rule rtranclp.rtrancl_into_rtrancl)

lemma step_loaded_enriched: "step {api_text ''A claim''} example_encode db_loaded db_enriched"
proof -
  have "process_rows (api_text ''A claim'') example_encode db_loaded
          (take 1 (get_null_rows db_loaded BATCH_SIZE)) = db_enriched"
    by code_simp
  moreover have "step {api_text ''A claim''} example_encode db_loaded
     (process_rows (api_text ''A claim'') example_encode db_loaded
        (take 1 (get_null_rows db_loaded BATCH_SIZE)))"
    by (rule enrich_step) simp
  ultimately show ?thesis by simp
qed

lemma reachable_db_enriched: "reachable {api_text ''A claim''} example_encode db_enriched"
  using reachable_db_loaded [of "{api_text ''A claim''}"] step_loaded_enriched
  unfolding reachable_def by (rule rtranclp.rtrancl_into_rtrancl)

section \<open>One attempt of the enrichment loop\<close>

text \<open>What a successful response does when its text is not \<open>MISSING\<close>.\<close>

lemma success_stores_text:
  assumes "extract_tweet_id url = Some tid" and "fetch tid = Success d"
    and "fillna (json_text d) \<noteq> ''MISSING''"
  shows "fact_checks (process_row fetch encode db (i, url)) =
           map (\<lambda>r. if row_id r = i
                     then r\<lparr>tweet_text := Some (fillna (json_text d)),
                            tweet_vector := Some (encode (fillna (json_text d))),
                            tweet_format := Some (detect_format d)\<rparr>
                     else r) (fact_checks db)"
proof -
  have "fetch_tweet_details fetch url = Some (fillna (json_text d), detect_format d)"
    using assms(1,2) by (simp add: fetch_tweet_details_def fillna_def)
  then show ?thesis
    using assms(3) by (simp add: process_row_def update_row_def update_where_id_def)
qed

lemma detect_format_cases:
  "detect_format d =
     (if json_video d then ''Video''
      else if (\<exists>n. json_photos d = Some n \<and> 0 < n) then ''Photo'' else ''Text'')"
  by (auto simp: detect_format_def split: option.splits)

section \<open>Hits of the claim search\<close>

lemma claim_query_hit:
  assumes "(r, d) \<in> set (claim_query cdist db qe)"
  shows "r \<in> set (fact_checks db) \<and> (\<exists>v. tweet_vector r = Some v \<and> d = cdist v qe)"
proof -
  let ?hits = "List.map_filter
          (\<lambda>r. case tweet_vector r of None \<Rightarrow> None | Some v \<Rightarrow> Some (r, cdist v qe))
          (fact_checks db)"
  from assms have "(r, d) \<in> set (sort_key snd ?hits)"
    unfolding claim_query_def by (rule in_set_takeD)
  then have "(r, d) \<in> set ?hits" by simp
  then show ?thesis
    by (auto simp: map_filter_def split: option.splits)
qed

lemma same_tweet_id:
  assumes "distinct (map tweet_id rs)" "r \<in> set rs" "r' \<in> set rs" "tweet_id r = tweet_id r'"
  shows "r = r'"
  using assms by (meson distinct_map inj_onD)

lemma search_db_enriched:
  "snd (search example_cdist example_encode db_enriched ''A claim'') = [result99]"
  by (simp add: search_def claim_query_def map_filter_def db_enriched_def row99_enriched_def
      row99_def result_of_def example_cdist_def example_encode_def SIMILARITY_THRESHOLD_def
      result99_def)

section \<open>Progress of a pass of the enrichment loop\<close>





lemma rows_effect_row_id: "row_id (rows_effect fetch encode sels r) = row_id r"
  by (induction sels arbitrary: r) (simp_all add: row_effect_ids)










lemma get_null_rows_db_loaded:
  "get_null_rows db_loaded BATCH_SIZE = [(1, Some ''https://twitter.com/i/web/status/99'')]"
  by code_simp


section \<open>Filter and dedup\<close>

lemma drop_seen_keys:
  "tweetId ` set (drop_seen seen xs) = tweetId ` set xs - set seen"
  by (induction seen xs rule: drop_seen.induct) auto

lemma drop_seen_distinct: "distinct (map tweetId (drop_seen seen xs))"
proof (induction seen xs rule: drop_seen.induct)
  case (1 seen)
  then show ?case by simp
next
  case (2 seen n ns)
  have "tweetId n \<notin> tweetId ` set (drop_seen (tweetId n # seen) ns)"
    unfolding drop_seen_keys by simp
  with 2 show ?case by simp
qed

lemma drop_seen_first:
  "r \<in> set (drop_seen seen xs) \<Longrightarrow> find (\<lambda>m. tweetId m = tweetId r) xs = Some r"
proof (induction seen xs rule: drop_seen.induct)
  case (1 seen)
  then show ?case by simp
next
  case (2 seen n ns)
  show ?case
  proof (cases "tweetId n \<in> set seen")
    case True
    with "2.prems" have r: "r \<in> set (drop_seen seen ns)" by simp
    then have "tweetId r \<in> tweetId ` set (drop_seen seen ns)" by blast
    then have "tweetId r \<notin> set seen" unfolding drop_seen_keys by simp
    with True have "tweetId n \<noteq> tweetId r" by auto
    with "2.IH"(1) [OF True r] show ?thesis by simp
  next
    case False
    show ?thesis
    proof (cases "r = n")
      case True
      then show ?thesis by simp
    next
      case neq: False
      with False "2.prems" have r: "r \<in> set (drop_seen (tweetId n # seen) ns)" by simp
      then have "tweetId r \<in> tweetId ` set (drop_seen (tweetId n # seen) ns)" by blast
      then have "tweetId n \<noteq> tweetId r" unfolding drop_seen_keys by auto
      with "2.IH"(2) [OF False r] show ?thesis by simp
    qed
  qed
qed

lemma drop_seen_repeated:
  "drop_seen seen (map (\<lambda>_. n) ys @ xs) =
     (if ys = [] then drop_seen seen xs else drop_seen seen (n # xs))"
proof (induction ys arbitrary: seen)
  case Nil
  then show ?case by simp
next
  case (Cons y ys)
  show ?case
  proof (cases "tweetId n \<in> set seen")
    case True
    then show ?thesis by (simp add: Cons.IH)
  next
    case False
    then show ?thesis by (simp add: Cons.IH)
  qed
qed

lemma drop_seen_merge_inner:
  "drop_seen seen (merge_inner notes_df ids) =
     drop_seen seen (filter (\<lambda>n. noteId n \<in> set ids) notes_df)"
proof (induction notes_df arbitrary: seen)
  case Nil
  then show ?case by (simp add: merge_inner_def)
next
  case (Cons n ns)
  have split: "merge_inner (n # ns) ids =
      map (\<lambda>_. n) (filter (\<lambda>i. i = noteId n) ids) @ merge_inner ns ids"
    by (simp add: merge_inner_def)
  have empty: "(filter (\<lambda>i. i = noteId n) ids = []) = (noteId n \<notin> set ids)"
    by (auto simp: filter_empty_conv)
  show ?case
    unfolding split drop_seen_repeated empty
    by (simp add: Cons.IH)
qed

lemma rated_helpful_ids:
  "rated_helpful status_df n = (noteId n \<in> set (map status_noteId (helpful_status status_df)))"
  by (force simp: rated_helpful_def helpful_status_def list_ex_iff)

lemma set_merge_inner:
  "set (merge_inner notes_df ids) = {n \<in> set notes_df. noteId n \<in> set ids}"
  by (auto simp: merge_inner_def)

lemma find_filter:
  "find P (filter H xs) = find (\<lambda>x. H x \<and> P x) xs"
  by (induction xs) auto

lemma filter_dedup_alt:
  "filter_dedup notes_df status_df = drop_seen [] (filter (rated_helpful status_df) notes_df)"
  by (simp add: filter_dedup_def drop_duplicates_def load_and_filter_notes_def
      drop_seen_merge_inner rated_helpful_ids [abs_def])

lemma filter_dedup_example:
  "filter_dedup example_notes example_status =
     [\<lparr>noteId = 1, tweetId = 42, summary = Some ''first''\<rparr>,
      \<lparr>noteId = 3, tweetId = 7, summary = None\<rparr>]"
  by code_simp

section \<open>The loader as a sequence of upserts\<close>

















lemma str_nat_digits: "set (str_nat n) \<subseteq> set ''0123456789''"
proof (induction n rule: str_nat.induct)
  case (1 n)
  have digit: "''0123456789'' ! k \<in> set ''0123456789''" if "k < 10" for k
    using that by (intro nth_mem) simp
  show ?case
  proof (cases "n < 10")
    case True
    then show ?thesis using digit [of n] by (subst str_nat.simps) simp
  next
    case False
    have "n mod 10 < 10" by simp
    with "1.IH" False digit [of "n mod 10"] show ?thesis
      by (subst str_nat.simps) simp
  qed
qed

lemma no_nul_make_tweet_url: "no_nul (make_tweet_url tid)"
proof -
  have "CHR 0x00 \<notin> set ''0123456789''" by simp
  with str_nat_digits have "CHR 0x00 \<notin> set (str_nat n)" for n by blast
  then show ?thesis by (simp add: no_nul_def make_tweet_url_def str_int_def)
qed























section \<open>The downloader\<close>

lemma fetch_dataset_ok: "snd (fetch_dataset w d ds) = dataset_ready w d ds"
  by (simp add: fetch_dataset_def dataset_ready_def split: extraction.splits)

lemma fetch_dataset_tried:
  "fst (fetch_dataset w d ds) =
     (if tsv_exists w d ds then []
      else if zip_download w d ds then [Zip]
      else if tsv_download w d ds then [Zip, DatedTsv]
      else [Zip, DatedTsv, LegacyTsv])"
  by (simp add: fetch_dataset_def split: extraction.splits)

lemma fetch_datasets_ok: "snd (fetch_datasets w d dss) = list_all (dataset_ready w d) dss"
proof (induction dss)
  case Nil
  then show ?case by simp
next
  case (Cons ds dss)
  obtain tried ok where f: "fetch_dataset w d ds = (tried, ok)" by (cases "fetch_dataset w d ds")
  with fetch_dataset_ok [of w d ds] have ok: "ok = dataset_ready w d ds" by simp
  obtain entries ok' where g: "fetch_datasets w d dss = (entries, ok')"
    by (cases "fetch_datasets w d dss")
  with Cons.IH have ok': "ok' = list_all (dataset_ready w d) dss" by simp
  show ?case by (cases ok) (simp_all add: f g ok [symmetric] ok')
qed

lemma try_days_find:
  "try_days w days =
     (case find (\<lambda>d. list_all (dataset_ready w d) DATASETS) days of
        None \<Rightarrow> None
      | Some d \<Rightarrow> Some (map (\<lambda>ds. (d, ds)) DATASETS))"
  by (induction days) (simp_all add: fetch_datasets_ok)

section \<open>Order and bound of the search answers\<close>

lemma null_last_le_total: "null_last_le a b \<or> null_last_le b a"
  by (auto simp: null_last_le_def split: option.splits)

lemma null_last_le_trans: "null_last_le a b \<Longrightarrow> null_last_le b c \<Longrightarrow> null_last_le a c"
  by (auto simp: null_last_le_def split: option.splits)

lemma set_insert_hit: "set (insert_hit h hs) = insert h (set hs)"
  by (induction hs) auto

lemma length_insert_hit: "length (insert_hit h hs) = Suc (length hs)"
  by (induction hs) auto

lemma sorted_insert_hit:
  "sorted_wrt (\<lambda>a b. null_last_le (snd (snd a)) (snd (snd b))) hs \<Longrightarrow>
   sorted_wrt (\<lambda>a b. null_last_le (snd (snd a)) (snd (snd b))) (insert_hit h hs)"
proof (induction hs)
  case Nil
  then show ?case by simp
next
  case (Cons g gs)
  show ?case
  proof (cases "null_last_le (snd (snd h)) (snd (snd g))")
    case True
    with Cons.prems show ?thesis by (auto intro: null_last_le_trans)
  next
    case False
    then have "null_last_le (snd (snd g)) (snd (snd h))"
      using null_last_le_total by blast
    with False Cons show ?thesis by (auto simp: set_insert_hit)
  qed
qed

lemma sorted_order_by_distance:
  "sorted_wrt (\<lambda>a b. null_last_le (snd (snd a)) (snd (snd b))) (order_by_distance hs)"
  unfolding order_by_distance_def by (induction hs) (simp_all add: sorted_insert_hit)

lemma length_order_by_distance: "length (order_by_distance hs) = length hs"
  unfolding order_by_distance_def by (induction hs) (simp_all add: length_insert_hit)

lemma search_notes_sorted:
  "sorted_wrt (\<lambda>a b. null_last_le (snd (snd a)) (snd (snd b))) (search_notes cdist db e k)"
  unfolding search_notes_def by (intro sorted_wrt_take sorted_order_by_distance)

lemma search_notes_length: "length (search_notes cdist db e k) \<le> k"
  by (simp add: search_notes_def)

lemma relevant_lines_set:
  "relevant_lines i hits = Inr ls \<Longrightarrow>
   snd ` set ls =
     {((1 - d) * 100, txt, url) | txt url d.
        (txt, url, Some d) \<in> set hits \<and> \<not> d > NOTE_SIMILARITY_THRESHOLD}"
proof (induction i hits arbitrary: ls rule: relevant_lines.induct)
  case (1 i)
  then show ?case by simp
next
  case (2 i t u distance hits)
  from "2.prems" obtain d where d: "distance = Some d" by (cases distance) auto
  show ?case
  proof (cases "d > NOTE_SIMILARITY_THRESHOLD")
    case True
    with "2.prems" d have "relevant_lines (Suc i) hits = Inr ls" by simp
    from "2.IH"(1) [OF d True this] show ?thesis using True d by auto
  next
    case False
    with "2.prems" d obtain ls' where ls': "relevant_lines (Suc i) hits = Inr ls'"
      "ls = (i, (1 - d) * 100, t, u) # ls'"
      by (auto split: sum.splits)
    from "2.IH"(2) [OF d False ls'(1)] show ?thesis using False d ls'(2) by auto
  qed
qed

lemma claim_query_sorted: "sorted (map snd (claim_query cdist db qe))"
proof -
  let ?hits = "List.map_filter
          (\<lambda>r. case tweet_vector r of None \<Rightarrow> None | Some v \<Rightarrow> Some (r, cdist v qe))
          (fact_checks db)"
  have "sorted (map snd (sort_key snd ?hits))" by (rule sorted_sort_key)
  then have "sorted (take 5 (map snd (sort_key snd ?hits)))" by (rule sorted_wrt_take)
  then show ?thesis by (simp add: claim_query_def take_map)
qed

lemma result_of_distance: "map res_distance (map result_of hits) = map snd hits"
  by (induction hits) (auto simp: result_of_def)

lemma result_of_fields:
  "res_similarity (result_of h) = 1 - res_distance (result_of h) \<and>
   res_is_match (result_of h) = (res_distance (result_of h) < 4 / 10)"
  by (cases h) (simp add: result_of_def SIMILARITY_THRESHOLD_def)

lemma search_notes_example:
  "search_notes example_cdist db_notes [0] TOP_K =
     [(''near'', Some ''u7'', Some (3 / 10)), (''far'', Some ''u42'', Some (5 / 10))]"
  by (simp add: search_notes_def db_notes_def order_by_distance_def null_last_le_def
      example_cdist_def TOP_K_def)

lemma display_results_example:
  "display_results [(''near'', Some ''u7'', Some (3 / 10)), (''far'', Some ''u42'', Some (5 / 10))] =
     Inr (Relevant [(1, 70, ''near'', Some ''u7''), (2, 50, ''far'', Some ''u42'')])"
  by (simp add: display_results_def NOTE_SIMILARITY_THRESHOLD_def)

lemma display_results_shown:
  assumes sorted: "sorted_wrt (\<lambda>a b. null_last_le (snd (snd a)) (snd (snd b))) hits"
    and out: "display_results hits = Inr out"
    and hit: "(t, u, Some d) \<in> set hits"
  shows "(d < 5 / 10 \<longrightarrow> shown_relevant out t u d) \<and>
         (shown_relevant out t u d \<longrightarrow>
            d \<le> 5 / 10 \<and> (\<exists>t0 u0 b rest. hits = (t0, u0, Some b) # rest \<and> b < 5 / 10))"
proof -
  from hit obtain h rest where hits: "hits = h # rest" by (cases hits) auto
  obtain t0 u0 best where h: "h = (t0, u0, best)" by (cases h) auto
  from out obtain b where b: "best = Some b"
    by (cases best) (auto simp: display_results_def hits h)
  have le: "b \<le> d"
  proof (cases "(t, u, Some d) = h")
    case True
    with h b show ?thesis by simp
  next
    case False
    with hit hits have "(t, u, Some d) \<in> set rest" by simp
    with sorted hits h b have "null_last_le (Some b) (Some d)" by auto
    then show ?thesis by (simp add: null_last_le_def)
  qed
  show ?thesis
  proof (cases "b < NOTE_SIMILARITY_THRESHOLD")
    case True
    with out obtain ls where ls: "relevant_lines 1 hits = Inr ls" "out = Relevant ls"
      by (auto simp: display_results_def hits h b split: sum.splits)
    have "shown_relevant out t u d = (((1 - d) * 100, t, u) \<in> snd ` set ls)"
      unfolding shown_relevant_def ls(2) by (force simp: list_ex_iff)
    also have "\<dots> = (\<exists>d'. (1 - d') * 100 = (1 - d) * 100 \<and> (t, u, Some d') \<in> set hits \<and>
        \<not> d' > NOTE_SIMILARITY_THRESHOLD)"
      unfolding relevant_lines_set [OF ls(1)] by auto
    also have "\<dots> = (\<not> d > NOTE_SIMILARITY_THRESHOLD)"
      using hit by auto
    finally have "shown_relevant out t u d = (d \<le> 5 / 10)"
      by (simp add: NOTE_SIMILARITY_THRESHOLD_def not_less)
    moreover have "\<exists>t0 u0 b rest. hits = (t0, u0, Some b) # rest \<and> b < 5 / 10"
      using True hits h b by (simp add: NOTE_SIMILARITY_THRESHOLD_def)
    ultimately show ?thesis by auto
  next
    case False
    with out have "out = Closest t0 u0"
      by (simp add: display_results_def hits h b)
    then have "\<not> shown_relevant out t u d" by (simp add: shown_relevant_def)
    moreover have "\<not> d < 5 / 10"
      using False le by (simp add: NOTE_SIMILARITY_THRESHOLD_def)
    ultimately show ?thesis by simp
  qed
qed

section \<open>The enrichment loop need not return\<close>

lemma enrich_pass_api_down: "enrich_pass api_down example_encode db_loaded = db_loaded"
  by code_simp

text \<open>
  Without the precondition the loop need not return: while the content API is down, every
  pass selects the same record and leaves the store as it was.
\<close>

lemma enrich_loop_api_down:
  "enrich_loop (\<lambda>n. api_down) example_encode n db_loaded = None"
proof -
  let ?P = "\<lambda>fetch encode (n::nat) db (y::database).
    \<not> (fetch = (\<lambda>n. api_down) \<and> encode = example_encode \<and> db = db_loaded)"
  have never: "?P fetch encode n db y" if "enrich_loop fetch encode n db = Some y"
    for fetch encode n db y
  proof (rule enrich_loop.raw_induct [where P = ?P, OF _ that])
    fix loop fetch encode n db y
    assume IH: "\<And>fetch encode n db y. loop fetch encode n db = Some y \<Longrightarrow> ?P fetch encode n db y"
      and eq: "(if get_null_rows db BATCH_SIZE = [] then Some db
                else loop fetch encode (Suc n) (enrich_pass (fetch n) encode db)) = Some y"
    show "?P fetch encode n db y"
    proof
      assume a: "fetch = (\<lambda>n. api_down) \<and> encode = example_encode \<and> db = db_loaded"
      have "get_null_rows db_loaded BATCH_SIZE \<noteq> []"
        by (simp add: get_null_rows_db_loaded)
      with eq a have "loop fetch encode (Suc n) db_loaded = Some y"
        by (simp add: enrich_pass_api_down)
      from IH [OF this] a show False by simp
    qed
  qed
  show ?thesis
  proof (cases "enrich_loop (\<lambda>n. api_down) example_encode n db_loaded")
    case None
    then show ?thesis .
  next
    case (Some y)
    from never [OF this] show ?thesis by simp
  qed
qed

lemma chunks_of_short: "0 < n \<Longrightarrow> xs \<noteq> [] \<Longrightarrow> length xs \<le> n \<Longrightarrow> chunks_of n xs = [xs]"
  by (subst chunks_of.simps, subst chunks_of.simps) simp

section \<open>Input that the store refuses\<close>

text \<open>
  A \<open>tweetId\<close> beyond \<open>BIGINT\<close> ends the run with an error and nothing written; so does
  input that is not deduplicated.
\<close>

lemma batch_loader_out_of_range:
  "batch_loader (\<lambda>k. 7) example_encode empty_db
     [\<lparr>noteId = 1, tweetId = 9223372036854775808, summary = Some ''first''\<rparr>] =
   Inl NumericValueOutOfRange"
  by (simp add: batch_loader_def insert_batch_def chunks_of_short LOAD_BATCH_SIZE_def
      PAGE_SIZE_def batch_data_of_def insert_statement_def no_nul_make_tweet_url [unfolded no_nul_def] fillna_def
      no_nul_def in_bigint_def)

lemma batch_loader_not_deduplicated:
  "batch_loader (\<lambda>k. 7) example_encode empty_db
     [\<lparr>noteId = 1, tweetId = 42, summary = Some ''first''\<rparr>,
      \<lparr>noteId = 2, tweetId = 42, summary = Some ''second''\<rparr>] =
   Inl CardinalityViolation"
  by code_simp

lemma insert_statement_errors:
  "insert_statement now db items = Inr db' \<Longrightarrow>
   db' = foldl (upsert now) db items \<and> list_all storable items \<and> distinct (map fst items) \<and>
   int (id_seq db) + int (length items) \<le> MAX_SERIAL + 1"
  by (auto simp: insert_statement_def storable_def list_all_iff split: if_splits)

section \<open>The claims\<close>

subsection \<open>Enrichment loop\<close>

text \<open>
  Claim C1.  A record whose \<open>tweet_format\<close> is \<open>Missing\<close> is never selected again: in every
  store \<open>db'\<close> that the loader and the enrichment loop can reach from a reachable store
  \<open>db\<close> holding such a record, the record is still marked \<open>Missing\<close> and \<open>get_null_rows\<close>
  does not return its id, whatever the limit.  (With \<open>db' = db\<close>: the query never returns
  such a record in any reachable store.)
\<close>

theorem missing_never_selected:
  assumes "reachable apis encode db" and "r \<in> set (fact_checks db)"
    and "tweet_format r = Some ''Missing''"
    and "(step apis encode)\<^sup>*\<^sup>* db db'"
  shows "row_id r \<notin> fst ` set (get_null_rows db' n) \<and>
         (\<exists>r' \<in> set (fact_checks db'). row_id r' = row_id r \<and> tweet_format r' = Some ''Missing'')"
proof -
  have ok: "store_ok db" using assms(1) by (rule reachable_store_ok)
  from assms(4) ok assms(2,3)
  have "store_ok db' \<and>
    (\<exists>r' \<in> set (fact_checks db'). row_id r' = row_id r \<and> tweet_format r' = Some ''Missing'')"
  proof (induction rule: rtranclp_induct)
    case base
    then show ?case by blast
  next
    case (step y z)
    then obtain r1 where r1: "store_ok y" "r1 \<in> set (fact_checks y)" "row_id r1 = row_id r"
      "tweet_format r1 = Some ''Missing''" by blast
    from step_keeps_missing [OF step.hyps(2) r1(1,2,4)] r1(3) step_store_ok [OF step.hyps(2) r1(1)]
    show ?case by auto
  qed
  then obtain r' where r': "store_ok db'" "r' \<in> set (fact_checks db')" "row_id r' = row_id r"
    "tweet_format r' = Some ''Missing''" by blast
  then have "row_id r' \<notin> fst ` set (get_null_rows db' n)"
    by (intro missing_not_selected) (simp_all add: store_ok_def keys_ok_def)
  with r' show ?thesis by auto
qed

theorem missing_never_selected_witness:
  "reachable UNIV example_encode db_missing \<and>
   row99_missing \<in> set (fact_checks db_missing) \<and>
   tweet_format row99_missing = Some ''Missing'' \<and>
   (step UNIV example_encode)\<^sup>*\<^sup>* db_missing db_missing_reloaded \<and>
   row_id row99_missing \<notin> fst ` set (get_null_rows db_missing_reloaded BATCH_SIZE) \<and>
   (\<exists>r' \<in> set (fact_checks db_missing_reloaded).
      row_id r' = row_id row99_missing \<and> tweet_format r' = Some ''Missing'')"
proof -
  have a: "reachable UNIV example_encode db_missing" by (rule reachable_db_missing)
  have b: "row99_missing \<in> set (fact_checks db_missing)" by (simp add: db_missing_def)
  have c: "tweet_format row99_missing = Some ''Missing''" by (simp add: row99_missing_def)
  have d: "(step UNIV example_encode)\<^sup>*\<^sup>* db_missing db_missing_reloaded"
    using step_missing_reloaded by (rule r_into_rtranclp)
  from missing_never_selected [OF a b c d, of BATCH_SIZE] a b c d show ?thesis by blast
qed

text \<open>
  Claim C7 (as amended).  In every store reachable by the loader and the enrichment loop,
  every record with a \<open>tweet_vector\<close> has a \<open>tweet_text\<close>, and every record whose
  \<open>tweet_text\<close> is neither NULL nor the marker \<open>MISSING_OR_DELETED\<close> has a
  \<open>tweet_vector\<close>.  The full equivalence (vector non-null iff text non-null and not the
  marker) holds in every store reached while the content API never gave the marker as the
  text of a tweet.
\<close>

theorem vector_iff_text_reachable:
  assumes "reachable apis encode db" and "r \<in> set (fact_checks db)"
  shows "(tweet_vector r \<noteq> None \<longrightarrow> tweet_text r \<noteq> None) \<and>
         (tweet_text r \<noteq> None \<and> tweet_text r \<noteq> Some ''MISSING_OR_DELETED'' \<longrightarrow>
            tweet_vector r \<noteq> None) \<and>
         ((\<forall>fetch \<in> apis. honest fetch) \<longrightarrow> vector_iff_text r)"
proof -
  have "row_ok r"
    using reachable_store_ok [OF assms(1)] assms(2) by (simp add: store_ok_def list_all_iff)
  moreover have "no_vector_on_marker r" if "\<forall>fetch \<in> apis. honest fetch"
    using reachable_no_vector_on_marker [OF assms(1) that] assms(2) by (simp add: list_all_iff)
  ultimately show ?thesis
    by (auto simp: row_ok_def no_vector_on_marker_def vector_iff_text_def)
qed

text \<open>
  The equivalence of claim C7 as stated fails: a tweet whose text is literally
  \<open>MISSING_OR_DELETED\<close> is stored with its embedding.
\<close>

theorem vector_iff_text_counterexample:
  "reachable UNIV example_encode db_sentinel \<and>
   row99_sentinel \<in> set (fact_checks db_sentinel) \<and>
   tweet_vector row99_sentinel \<noteq> None \<and>
   tweet_text row99_sentinel = Some ''MISSING_OR_DELETED''"
  using reachable_db_sentinel by (simp add: db_sentinel_def row99_sentinel_def)

theorem vector_iff_text_reachable_witness:
  "reachable {api_text ''A claim''} example_encode db_enriched \<and>
   row99_enriched \<in> set (fact_checks db_enriched) \<and>
   honest (api_text ''A claim'') \<and>
   tweet_vector row99_enriched \<noteq> None \<and> tweet_text row99_enriched \<noteq> None \<and>
   vector_iff_text row99_enriched"
proof -
  have a: "reachable {api_text ''A claim''} example_encode db_enriched"
    by (rule reachable_db_enriched)
  have b: "row99_enriched \<in> set (fact_checks db_enriched)" by (simp add: db_enriched_def)
  have c: "honest (api_text ''A claim'')" by (simp add: honest_def api_text_def)
  have d: "tweet_vector row99_enriched \<noteq> None" "tweet_text row99_enriched \<noteq> None"
    by (simp_all add: row99_enriched_def)
  from vector_iff_text_reachable [OF a b] c have "vector_iff_text row99_enriched" by simp
  with a b c d show ?thesis by simp
qed

text \<open>
  Claim C4.  When the content API answers not-found for a selected record (so its URL gave
  a numeric identifier and the API was asked), the record gets the text
  \<open>MISSING_OR_DELETED\<close> and the format \<open>Missing\<close>; no other column and no other record
  changes, and the record's \<open>tweet_vector\<close> is still NULL.
\<close>

theorem not_found_marks_missing:
  assumes "reachable apis encode db" and "(i, url) \<in> set (get_null_rows db n)"
    and "extract_tweet_id url = Some tid" and "fetch tid = NotFound"
  shows "fact_checks (process_row fetch encode db (i, url)) =
           map (\<lambda>r. if row_id r = i
                     then r\<lparr>tweet_text := Some ''MISSING_OR_DELETED'',
                            tweet_format := Some ''Missing''\<rparr>
                     else r) (fact_checks db) \<and>
         (\<exists>r' \<in> set (fact_checks (process_row fetch encode db (i, url))).
            row_id r' = i \<and> tweet_text r' = Some ''MISSING_OR_DELETED'' \<and>
            tweet_format r' = Some ''Missing'' \<and> tweet_vector r' = None)"
proof -
  have f: "fetch_tweet_details fetch url = Some (''MISSING'', ''Unknown'')"
    using assms(3,4) by (simp add: fetch_tweet_details_def)
  have rows: "fact_checks (process_row fetch encode db (i, url)) =
           map (\<lambda>r. if row_id r = i
                     then r\<lparr>tweet_text := Some ''MISSING_OR_DELETED'',
                            tweet_format := Some ''Missing''\<rparr>
                     else r) (fact_checks db)"
    by (simp add: process_row_def f update_row_def update_where_id_def)
  from assms(2) obtain r where r: "r \<in> set (fact_checks db)" "needs_enrichment r" "row_id r = i"
    using selected_row by fastforce
  have "row_ok r"
    using reachable_store_ok [OF assms(1)] r(1) by (simp add: store_ok_def list_all_iff)
  with r(2) have "tweet_vector r = None"
    by (auto simp: row_ok_def needs_enrichment_def)
  let ?r' = "r\<lparr>tweet_text := Some ''MISSING_OR_DELETED'', tweet_format := Some ''Missing''\<rparr>"
  have "?r' \<in> set (fact_checks (process_row fetch encode db (i, url)))"
    unfolding rows using r(1,3) by force
  moreover have "row_id ?r' = i \<and> tweet_text ?r' = Some ''MISSING_OR_DELETED'' \<and>
            tweet_format ?r' = Some ''Missing'' \<and> tweet_vector ?r' = None"
    using r(3) \<open>tweet_vector r = None\<close> by simp
  ultimately show ?thesis using rows by blast
qed

theorem not_found_marks_missing_witness:
  "reachable UNIV example_encode db_loaded \<and>
   (1, Some ''https://twitter.com/i/web/status/99'') \<in> set (get_null_rows db_loaded BATCH_SIZE) \<and>
   extract_tweet_id (Some ''https://twitter.com/i/web/status/99'') = Some ''99'' \<and>
   api_not_found ''99'' = NotFound \<and>
   fact_checks (process_row api_not_found example_encode db_loaded
     (1, Some ''https://twitter.com/i/web/status/99'')) = [row99_missing]"
proof -
  have a: "reachable UNIV example_encode db_loaded" by (rule reachable_db_loaded)
  have b: "(1, Some ''https://twitter.com/i/web/status/99'') \<in> set (get_null_rows db_loaded BATCH_SIZE)"
    by code_simp
  have c: "extract_tweet_id (Some ''https://twitter.com/i/web/status/99'') = Some ''99''"
    by code_simp
  have d: "api_not_found ''99'' = NotFound" by (simp add: api_not_found_def)
  from not_found_marks_missing [where fetch = api_not_found and encode = example_encode, OF a b c d]
  have "fact_checks (process_row api_not_found example_encode db_loaded
     (1, Some ''https://twitter.com/i/web/status/99'')) = [row99_missing]"
    by (simp add: db_loaded_def row99_def row99_missing_def)
  with a b c d show ?thesis by simp
qed

text \<open>
  Claim C3 fails on a successful response whose text is \<open>MISSING\<close>: \<open>main\<close> takes the text
  for the not-found signal of \<open>fetch_tweet_details\<close> and marks the live tweet as missing,
  with neither its text nor an embedding stored.  (For every other text,
  \<open>success_stores_text\<close> above is what the claim says.)
\<close>

theorem live_tweet_marked_missing:
  "extract_tweet_id (Some ''https://twitter.com/i/web/status/99'') = Some ''99'' \<and>
   api_text ''MISSING'' ''99'' = Success \<lparr>json_text = Some ''MISSING'', json_video = False, json_photos = None\<rparr> \<and>
   process_row (api_text ''MISSING'') example_encode db_loaded
     (1, Some ''https://twitter.com/i/web/status/99'') = db_missing"
  by code_simp

subsection \<open>Claim search over reachable stores\<close>

text \<open>
  Claim C10.  In every reachable store, every result of the claim search comes from a record
  with a \<open>tweet_vector\<close>, which is the only record with the result's \<open>tweet_id\<close>; that record
  has a \<open>tweet_text\<close> and is not marked \<open>Missing\<close> (so no record waiting for enrichment and
  no record marked permanently missing appears among the results); and the result's
  \<open>tweet_text\<close> is null exactly when the stored text is empty or \<open>MISSING_OR_DELETED\<close>.
\<close>

theorem search_results_enriched:
  assumes "reachable apis encode db" and "res \<in> set (snd (search cdist encode db q))"
  shows "\<exists>r \<in> set (fact_checks db).
           res_tweet_id res = tweet_id r \<and>
           (\<forall>r' \<in> set (fact_checks db). tweet_id r' = res_tweet_id res \<longrightarrow> r' = r) \<and>
           tweet_vector r \<noteq> None \<and> tweet_text r \<noteq> None \<and>
           tweet_format r \<noteq> Some ''Missing'' \<and>
           (res_tweet_text res = None) =
             (tweet_text r = Some [] \<or> tweet_text r = Some ''MISSING_OR_DELETED'')"
proof -
  have ok: "store_ok db" using assms(1) by (rule reachable_store_ok)
  from assms(2) have "res \<in> result_of ` set (claim_query cdist db (encode q))"
    by (simp add: search_def)
  then obtain h where h: "h \<in> set (claim_query cdist db (encode q))" "res = result_of h"
    by blast
  obtain r d where "h = (r, d)" by (cases h)
  with h have hit: "(r, d) \<in> set (claim_query cdist db (encode q))"
    and res: "res = result_of (r, d)"
    by simp_all
  from claim_query_hit [OF hit] obtain v where r: "r \<in> set (fact_checks db)"
    and v: "tweet_vector r = Some v" by blast
  have "row_ok r" using ok r by (simp add: store_ok_def list_all_iff)
  with v obtain t where t: "tweet_text r = Some t" and fmt: "tweet_format r \<noteq> Some ''Missing''"
    by (auto simp: row_ok_def)
  have d: "distinct (map tweet_id (fact_checks db))"
    using ok by (simp add: store_ok_def keys_ok_def)
  have id: "res_tweet_id res = tweet_id r" by (simp add: res result_of_def)
  have uniq: "\<forall>r' \<in> set (fact_checks db). tweet_id r' = res_tweet_id res \<longrightarrow> r' = r"
    unfolding id using same_tweet_id [OF d _ r] by blast
  have null_iff: "(res_tweet_text res = None) =
      (tweet_text r = Some [] \<or> tweet_text r = Some ''MISSING_OR_DELETED'')"
    by (simp add: res result_of_def t)
  have vec: "tweet_vector r \<noteq> None" using v by simp
  have tx: "tweet_text r \<noteq> None" using t by simp
  show ?thesis
    by (rule bexI [OF _ r]) (intro conjI id uniq vec tx fmt null_iff)
qed

theorem search_results_enriched_witness:
  "reachable {api_text ''A claim''} example_encode db_enriched \<and>
   result99 \<in> set (snd (search example_cdist example_encode db_enriched ''A claim'')) \<and>
   (\<exists>r \<in> set (fact_checks db_enriched). res_tweet_id result99 = tweet_id r \<and>
      tweet_vector r \<noteq> None \<and> tweet_text r \<noteq> None \<and> tweet_format r \<noteq> Some ''Missing'')"
proof -
  have a: "reachable {api_text ''A claim''} example_encode db_enriched"
    by (rule reachable_db_enriched)
  have b: "result99 \<in> set (snd (search example_cdist example_encode db_enriched ''A claim''))"
    unfolding search_db_enriched by simp
  from search_results_enriched [OF a b] obtain r where
    "r \<in> set (fact_checks db_enriched)" "res_tweet_id result99 = tweet_id r"
    "tweet_vector r \<noteq> None" "tweet_text r \<noteq> None" "tweet_format r \<noteq> Some ''Missing''"
    by blast
  then have "\<exists>r \<in> set (fact_checks db_enriched). res_tweet_id result99 = tweet_id r \<and>
      tweet_vector r \<noteq> None \<and> tweet_text r \<noteq> None \<and> tweet_format r \<noteq> Some ''Missing''"
    by blast
  with a b show ?thesis by blast
qed

subsection \<open>Termination\<close>



subsection \<open>Filter, dedup and the Batch Loader\<close>

text \<open>
  Claim C5.  Filter and dedup keeps exactly the notes whose \<open>noteId\<close> has a status record
  with the status \<open>CURRENTLY_RATED_HELPFUL\<close> (the inner join; a status listed several
  times repeats the note, which the deduplication undoes), and then keeps, for every
  \<open>tweetId\<close> among them, the first such note in the order of the input: the output has one
  row for each distinct \<open>tweetId\<close> of the surviving notes, and each row is the first
  surviving note of the input with its \<open>tweetId\<close>.
\<close>

theorem filter_dedup_first_occurrence:
  "set (load_and_filter_notes notes_df status_df) =
     {n \<in> set notes_df. rated_helpful status_df n} \<and>
   length (filter_dedup notes_df status_df) =
     card (tweetId ` {n \<in> set notes_df. rated_helpful status_df n}) \<and>
   length (filter_dedup notes_df status_df) \<le> length (filter (rated_helpful status_df) notes_df) \<and>
   distinct (map tweetId (filter_dedup notes_df status_df)) \<and>
   (\<forall>r \<in> set (filter_dedup notes_df status_df).
      find (\<lambda>m. rated_helpful status_df m \<and> tweetId m = tweetId r) notes_df = Some r)"
proof -
  let ?kept = "filter (rated_helpful status_df) notes_df"
  let ?out = "filter_dedup notes_df status_df"
  have out: "?out = drop_seen [] ?kept" by (rule filter_dedup_alt)
  have a: "set (load_and_filter_notes notes_df status_df) =
     {n \<in> set notes_df. rated_helpful status_df n}"
    by (simp add: load_and_filter_notes_def set_merge_inner rated_helpful_ids)
  have d: "distinct (map tweetId ?out)" unfolding out by (rule drop_seen_distinct)
  have keys: "tweetId ` set ?out = tweetId ` {n \<in> set notes_df. rated_helpful status_df n}"
    unfolding out drop_seen_keys by simp
  have "length ?out = length (map tweetId ?out)" by simp
  also have "\<dots> = card (set (map tweetId ?out))" using distinct_card [OF d] by simp
  also have "\<dots> = card (tweetId ` {n \<in> set notes_df. rated_helpful status_df n})"
    using keys by simp
  finally have b: "length ?out = card (tweetId ` {n \<in> set notes_df. rated_helpful status_df n})" .
  have "card (tweetId ` set ?kept) \<le> card (set ?kept)" by (intro card_image_le) simp
  also have "\<dots> \<le> length ?kept" by (rule card_length)
  finally have c: "length ?out \<le> length ?kept" unfolding b by simp
  have e: "\<forall>r \<in> set ?out.
      find (\<lambda>m. rated_helpful status_df m \<and> tweetId m = tweetId r) notes_df = Some r"
  proof
    fix r assume "r \<in> set ?out"
    then have "find (\<lambda>m. tweetId m = tweetId r) ?kept = Some r"
      unfolding out by (rule drop_seen_first)
    then show "find (\<lambda>m. rated_helpful status_df m \<and> tweetId m = tweetId r) notes_df = Some r"
      by (simp add: find_filter)
  qed
  from a b c d e show ?thesis by blast
qed

theorem filter_dedup_first_occurrence_witness:
  "filter_dedup example_notes example_status =
     [\<lparr>noteId = 1, tweetId = 42, summary = Some ''first''\<rparr>,
      \<lparr>noteId = 3, tweetId = 7, summary = None\<rparr>] \<and>
   card (tweetId ` {n \<in> set example_notes. rated_helpful example_status n}) = 2 \<and>
   find (\<lambda>m. rated_helpful example_status m \<and> tweetId m = 42) example_notes =
     Some \<lparr>noteId = 1, tweetId = 42, summary = Some ''first''\<rparr>"
proof -
  note ex = filter_dedup_example
  from filter_dedup_first_occurrence [of example_notes example_status]
  have "card (tweetId ` {n \<in> set example_notes. rated_helpful example_status n}) = 2"
    and "find (\<lambda>m. rated_helpful example_status m \<and> tweetId m = 42) example_notes =
     Some \<lparr>noteId = 1, tweetId = 42, summary = Some ''first''\<rparr>"
    unfolding ex by simp_all
  with ex show ?thesis by simp
qed



subsection \<open>Source Data Fetcher\<close>

text \<open>
  Claim C8 fails as stated: an archive that downloads but holds no TSV fails the day at once,
  though the dated and the legacy uncompressed files are there and were never tried; with
  such archives on all three days the downloader gives up.
\<close>

theorem fetch_dataset_no_fallback_counterexample:
  "fetch_dataset world_empty_zip 0 Notes = ([Zip], False) \<and>
   tsv_download world_empty_zip 0 Notes \<and>
   legacy_download world_empty_zip 0 Notes \<and>
   download_latest_data world_empty_zip = None"
  by (simp add: fetch_dataset_def download_latest_data_def DATASETS_def world_empty_zip_def)

text \<open>
  Claim C8 (as amended).  For a dataset whose dated TSV file is not there yet the downloader
  tries the dated ZIP archive first.  If the archive downloads nothing else is tried, and the
  dataset succeeds exactly when a TSV is extracted from it.  If the archive does not download,
  the dated uncompressed file is tried, then the file at the legacy URL, and the dataset fails
  exactly when both fail.  A day succeeds exactly when none of its datasets fails; the
  downloader returns the paths of the most recent of the last three days that succeeds, and
  \<open>None\<close> when none of them does.
\<close>

theorem download_latest_data_strategies:
  "fst (fetch_dataset w d ds) =
     (if tsv_exists w d ds then []
      else if zip_download w d ds then [Zip]
      else if tsv_download w d ds then [Zip, DatedTsv]
      else [Zip, DatedTsv, LegacyTsv]) \<and>
   snd (fetch_dataset w d ds) =
     (tsv_exists w d ds \<or>
      (if zip_download w d ds then zip_extract w d ds = Extracted
       else tsv_download w d ds \<or> legacy_download w d ds)) \<and>
   snd (fetch_datasets w d DATASETS) =
     (dataset_ready w d Notes \<and> dataset_ready w d NoteStatusHistory) \<and>
   download_latest_data w =
     (case find (\<lambda>d. dataset_ready w d Notes \<and> dataset_ready w d NoteStatusHistory) [0, 1, 2] of
        None \<Rightarrow> None
      | Some d \<Rightarrow> Some [(d, Notes), (d, NoteStatusHistory)])"
proof -
  have a: "snd (fetch_dataset w d ds) =
     (tsv_exists w d ds \<or>
      (if zip_download w d ds then zip_extract w d ds = Extracted
       else tsv_download w d ds \<or> legacy_download w d ds))"
    using fetch_dataset_ok [of w d ds] by (simp add: dataset_ready_def)
  have b: "snd (fetch_datasets w d DATASETS) =
     (dataset_ready w d Notes \<and> dataset_ready w d NoteStatusHistory)"
    unfolding fetch_datasets_ok by (simp add: DATASETS_def)
  have c: "download_latest_data w =
     (case find (\<lambda>d. dataset_ready w d Notes \<and> dataset_ready w d NoteStatusHistory) [0, 1, 2] of
        None \<Rightarrow> None
      | Some d \<Rightarrow> Some [(d, Notes), (d, NoteStatusHistory)])"
    unfolding download_latest_data_def try_days_find by (simp add: DATASETS_def)
  from fetch_dataset_tried [of w d ds] a b c show ?thesis by blast
qed

theorem download_latest_data_strategies_witness:
  "fetch_dataset world_yesterday 0 Notes = ([Zip, DatedTsv, LegacyTsv], False) \<and>
   fetch_dataset world_yesterday 1 Notes = ([Zip], True) \<and>
   fetch_dataset world_yesterday 1 NoteStatusHistory = ([Zip, DatedTsv, LegacyTsv], True) \<and>
   download_latest_data world_yesterday = Some [(1, Notes), (1, NoteStatusHistory)]"
proof -
  have ready: "\<not> dataset_ready world_yesterday 0 Notes" "dataset_ready world_yesterday 1 Notes"
    "dataset_ready world_yesterday 1 NoteStatusHistory"
    by (simp_all add: dataset_ready_def world_yesterday_def)
  have "download_latest_data world_yesterday = Some [(1, Notes), (1, NoteStatusHistory)]"
    using download_latest_data_strategies [of world_yesterday 0 Notes] ready by simp
  moreover have "fetch_dataset world_yesterday 0 Notes = ([Zip, DatedTsv, LegacyTsv], False)"
    "fetch_dataset world_yesterday 1 Notes = ([Zip], True)"
    "fetch_dataset world_yesterday 1 NoteStatusHistory = ([Zip, DatedTsv, LegacyTsv], True)"
    by (simp_all add: fetch_dataset_def world_yesterday_def)
  ultimately show ?thesis by simp
qed

subsection \<open>Query Service\<close>

text \<open>
  Claim C6 fails as stated for the note search: its hits are triples of note text, URL and
  distance, with no similarity and no match flag; \<open>display_results\<close> prints the similarity
  in percent (70 for the distance 0.3), and lists a hit at the distance 0.5, which is not
  below the threshold, among the relevant fact checks.
\<close>

theorem note_search_counterexample:
  "search_notes example_cdist db_notes [0] TOP_K =
     [(''near'', Some ''u7'', Some (3 / 10)), (''far'', Some ''u42'', Some (5 / 10))] \<and>
   display_results (search_notes example_cdist db_notes [0] TOP_K) =
     Inr (Relevant [(1, 70, ''near'', Some ''u7''), (2, 50, ''far'', Some ''u42'')]) \<and>
   \<not> ((5 / 10 :: real) < NOTE_SIMILARITY_THRESHOLD) \<and>
   (70 :: real) \<noteq> 1 - 3 / 10"
  unfolding search_notes_example display_results_example
  by (simp add: NOTE_SIMILARITY_THRESHOLD_def)

text \<open>
  Claim C6 (as amended).  The answer of the claim search is ordered by ascending distance and
  has at most 5 hits, each with similarity \<open>1 - distance\<close> and the match flag true exactly
  when the distance is below 0.4.  The answer of the note search is ordered by ascending
  distance, rows without a note vector last, and has at most 3 hits, which carry the raw
  distance only.  When \<open>display_results\<close> prints that answer, every hit at a distance below
  0.5 is listed among the relevant fact checks with the similarity \<open>(1 - distance) * 100\<close>,
  and a hit is listed there only if its distance is not above 0.5 and the best distance is
  below 0.5.
\<close>

theorem search_ordered_bounded:
  "sorted (map res_distance (snd (search cdist encode db q))) \<and>
   length (snd (search cdist encode db q)) \<le> 5 \<and>
   (\<forall>res \<in> set (snd (search cdist encode db q)).
      res_similarity res = 1 - res_distance res \<and>
      res_is_match res = (res_distance res < 4 / 10)) \<and>
   sorted_wrt null_last_le (map (\<lambda>h. snd (snd h)) (search_notes cdist db e TOP_K)) \<and>
   length (search_notes cdist db e TOP_K) \<le> 3 \<and>
   (display_results (search_notes cdist db e TOP_K) = Inr out \<and>
    (t, u, Some d) \<in> set (search_notes cdist db e TOP_K) \<longrightarrow>
      (d < 5 / 10 \<longrightarrow> shown_relevant out t u d) \<and>
      (shown_relevant out t u d \<longrightarrow>
         d \<le> 5 / 10 \<and>
         (\<exists>t0 u0 b rest. search_notes cdist db e TOP_K = (t0, u0, Some b) # rest \<and> b < 5 / 10)))"
proof -
  have a: "sorted (map res_distance (snd (search cdist encode db q)))"
    by (simp add: search_def result_of_distance claim_query_sorted del: map_map)
  have b: "length (snd (search cdist encode db q)) \<le> 5"
    by (simp add: search_def claim_query_def)
  have c: "\<forall>res \<in> set (snd (search cdist encode db q)).
      res_similarity res = 1 - res_distance res \<and>
      res_is_match res = (res_distance res < 4 / 10)"
    using result_of_fields by (auto simp: search_def)
  have d: "sorted_wrt null_last_le (map (\<lambda>h. snd (snd h)) (search_notes cdist db e TOP_K))"
    using search_notes_sorted [of cdist db e TOP_K] by (simp add: sorted_wrt_map)
  have e: "length (search_notes cdist db e TOP_K) \<le> 3"
    using search_notes_length [of cdist db e TOP_K] by (simp add: TOP_K_def)
  have f: "display_results (search_notes cdist db e TOP_K) = Inr out \<and>
    (t, u, Some d) \<in> set (search_notes cdist db e TOP_K) \<longrightarrow>
      (d < 5 / 10 \<longrightarrow> shown_relevant out t u d) \<and>
      (shown_relevant out t u d \<longrightarrow>
         d \<le> 5 / 10 \<and>
         (\<exists>t0 u0 b rest. search_notes cdist db e TOP_K = (t0, u0, Some b) # rest \<and> b < 5 / 10))"
    using display_results_shown [OF search_notes_sorted] by blast
  from a b c d e f show ?thesis by blast
qed

theorem search_ordered_bounded_witness:
  "display_results (search_notes example_cdist db_notes [0] TOP_K) =
     Inr (Relevant [(1, 70, ''near'', Some ''u7''), (2, 50, ''far'', Some ''u42'')]) \<and>
   (''near'', Some ''u7'', Some (3 / 10)) \<in> set (search_notes example_cdist db_notes [0] TOP_K) \<and>
   (3 / 10 :: real) < 5 / 10 \<and>
   shown_relevant (Relevant [(1, 70, ''near'', Some ''u7''), (2, 50, ''far'', Some ''u42'')])
     ''near'' (Some ''u7'') (3 / 10) \<and>
   length (search_notes example_cdist db_notes [0] TOP_K) \<le> 3"
proof -
  have a: "display_results (search_notes example_cdist db_notes [0] TOP_K) =
     Inr (Relevant [(1, 70, ''near'', Some ''u7''), (2, 50, ''far'', Some ''u42'')])"
    unfolding search_notes_example display_results_example by (rule refl)
  have b: "(''near'', Some ''u7'', Some (3 / 10)) \<in> set (search_notes example_cdist db_notes [0] TOP_K)"
    unfolding search_notes_example by simp
  have c: "(3 / 10 :: real) < 5 / 10" by simp
  from search_ordered_bounded [of example_cdist example_encode db_notes "[]" "[0]"
      "Relevant [(1, 70, ''near'', Some ''u7''), (2, 50, ''far'', Some ''u42'')]"
      "''near''" "Some ''u7''" "3 / 10"] a b c
  have "shown_relevant (Relevant [(1, 70, ''near'', Some ''u7''), (2, 50, ''far'', Some ''u42'')])
     ''near'' (Some ''u7'') (3 / 10)"
    and "length (search_notes example_cdist db_notes [0] TOP_K) \<le> 3"
    by blast+
  with a b c show ?thesis by blast
qed

end
